theory Spec2Isabelle
  imports Main
begin

section \<open>Data model (src/types/chess.ts)\<close>

datatype PieceType = king | queen | rook | bishop | knight | pawn

datatype PieceColor = white | black

text \<open>The field \<^verbatim>\<open>type\<close> of the source's \<^verbatim>\<open>Piece\<close> is called \<open>ptype\<close> here.\<close>

record Piece =
  ptype :: PieceType
  color :: PieceColor

text \<open>
  Rows and columns are JavaScript numbers; every value the engine computes from integer
  coordinates is again an integer, so they are modelled as \<open>int\<close>. A position may lie
  off the board: \<open>isValidPosition\<close> is the bounds check of the source.
\<close>

record Position =
  row :: int
  col :: int

text \<open>\<^verbatim>\<open>Board = (Piece | null)[][]\<close>: a list of rows, each a list of optional pieces.\<close>

type_synonym Board = "Piece option list list"

record CastlingRights =
  whiteKingSide :: bool
  whiteQueenSide :: bool
  blackKingSide :: bool
  blackQueenSide :: bool

text \<open>
  The fields \<^verbatim>\<open>from\<close>, \<^verbatim>\<open>to\<close> and \<^verbatim>\<open>notation\<close> of the source's \<^verbatim>\<open>Move\<close> are
  \<open>moveFrom\<close>, \<open>moveTo\<close> and \<open>moveNotation\<close>; \<^verbatim>\<open>isPromotion\<close> and \<^verbatim>\<open>promotionPiece\<close> are optional fields that no
  function of the engine ever sets, and are left out.
\<close>

record Move =
  moveFrom :: Position
  moveTo :: Position
  piece :: Piece
  capturedPiece :: "Piece option"
  isEnPassant :: bool
  isCastling :: bool
  moveNotation :: string

text \<open>
  \<^verbatim>\<open>capturedPieces: { white: Piece[]; black: Piece[] }\<close> is indexed by a colour in the
  source (\<^verbatim>\<open>newCapturedPieces[piece.color]\<close>), so it is a function from colours to lists.
\<close>

record GameState =
  board :: Board
  currentPlayer :: PieceColor
  selectedSquare :: "Position option"
  legalMoves :: "Position list"
  moveHistory :: "Move list"
  capturedPieces :: "PieceColor \<Rightarrow> Piece list"
  isCheck :: bool
  isCheckmate :: bool
  isStalemate :: bool
  lastMove :: "Move option"
  enPassantTarget :: "Position option"
  castlingRights :: CastlingRights

section \<open>Board access (src/utils/chessLogic.ts)\<close>

text \<open>
  A board of the game is an 8 by 8 grid: \<open>createInitialBoard\<close> builds one and every
  operation below keeps the shape.
\<close>

definition wf_board :: "Board \<Rightarrow> bool" where
  "wf_board b \<longleftrightarrow> length b = 8 \<and> list_all (\<lambda>r. length r = 8) b"

definition backRow :: "PieceType list" where
  "backRow = [rook, knight, bishop, queen, king, bishop, knight, rook]"

definition createInitialBoard :: Board where
  "createInitialBoard =
     [map (\<lambda>t. Some \<lparr>ptype = t, color = black\<rparr>) backRow,
      replicate 8 (Some \<lparr>ptype = pawn, color = black\<rparr>),
      replicate 8 None, replicate 8 None, replicate 8 None, replicate 8 None,
      replicate 8 (Some \<lparr>ptype = pawn, color = white\<rparr>),
      map (\<lambda>t. Some \<lparr>ptype = t, color = white\<rparr>) backRow]"

definition isValidPosition :: "Position \<Rightarrow> bool" where
  "isValidPosition pos \<longleftrightarrow> row pos \<ge> 0 \<and> row pos < 8 \<and> col pos \<ge> 0 \<and> col pos < 8"

text \<open>\<^verbatim>\<open>board[row][col]\<close>, read at indices the caller has kept inside the grid.\<close>

definition cell :: "Board \<Rightarrow> int \<Rightarrow> int \<Rightarrow> Piece option" where
  "cell b r c = b ! nat r ! nat c"

text \<open>\<^verbatim>\<open>board[row][col] = v\<close> on a board that was copied first (\<^verbatim>\<open>board.map(row => [...row])\<close>).\<close>

definition setCell :: "Board \<Rightarrow> int \<Rightarrow> int \<Rightarrow> Piece option \<Rightarrow> Board" where
  "setCell b r c v = b[nat r := (b ! nat r)[nat c := v]]"

definition getPieceAt :: "Board \<Rightarrow> Position \<Rightarrow> Piece option" where
  "getPieceAt b pos = (if \<not> isValidPosition pos then None else cell b (row pos) (col pos))"

text \<open>The squares in the order of the nested loops \<^verbatim>\<open>for row ... for col ...\<close>.\<close>

definition allSquares :: "Position list" where
  "allSquares = concat (map (\<lambda>r. map (\<lambda>c. \<lparr>row = r, col = c\<rparr>) [0..7]) [0..7])"

definition findKing :: "Board \<Rightarrow> PieceColor \<Rightarrow> Position option" where
  "findKing b clr =
     find (\<lambda>sq. case cell b (row sq) (col sq) of
                  None \<Rightarrow> False
                | Some p \<Rightarrow> ptype p = king \<and> color p = clr) allSquares"

definition opponent :: "PieceColor \<Rightarrow> PieceColor" where
  "opponent clr = (if clr = white then black else white)"

section \<open>Pseudo-legal moves\<close>

definition getPawnMoves :: "Board \<Rightarrow> Position \<Rightarrow> PieceColor \<Rightarrow> Position option \<Rightarrow> Position list" where
  "getPawnMoves b from clr enPassant =
     (let direction = (if clr = white then -1 else 1);
          startRow = (if clr = white then 6 else 1);
          forward = \<lparr>row = row from + direction, col = col from\<rparr>;
          doubleForward = \<lparr>row = row from + 2 * direction, col = col from\<rparr>;
          captures = [\<lparr>row = row from + direction, col = col from - 1\<rparr>,
                      \<lparr>row = row from + direction, col = col from + 1\<rparr>]
      in (if isValidPosition forward \<and> getPieceAt b forward = None
          then forward #
               (if row from = startRow \<and> getPieceAt b doubleForward = None
                then [doubleForward] else [])
          else [])
         @ concat (map (\<lambda>capture.
             if isValidPosition capture
             then (case getPieceAt b capture of
                     Some target \<Rightarrow> if color target \<noteq> clr then [capture] else []
                   | None \<Rightarrow> [])
                  @ (case enPassant of
                       Some ep \<Rightarrow> if row capture = row ep \<and> col capture = col ep
                                  then [capture] else []
                     | None \<Rightarrow> [])
             else []) captures))"

text \<open>
  The loops of \<open>getKnightMoves\<close> and \<open>getKingMoves\<close> have the same body: a destination on
  the board that is empty or holds a piece of the other colour.
\<close>

definition offsetMoves :: "Board \<Rightarrow> Position \<Rightarrow> PieceColor \<Rightarrow> (int \<times> int) list \<Rightarrow> Position list" where
  "offsetMoves b from clr offsets =
     concat (map (\<lambda>(dRow, dCol).
       let to = \<lparr>row = row from + dRow, col = col from + dCol\<rparr>
       in if isValidPosition to
          then (case getPieceAt b to of
                  None \<Rightarrow> [to]
                | Some target \<Rightarrow> if color target \<noteq> clr then [to] else [])
          else []) offsets)"

definition getKnightMoves :: "Board \<Rightarrow> Position \<Rightarrow> PieceColor \<Rightarrow> Position list" where
  "getKnightMoves b from clr =
     offsetMoves b from clr
       [(-2, -1), (-2, 1), (-1, -2), (-1, 2), (1, -2), (1, 2), (2, -1), (2, 1)]"

definition getKingMoves :: "Board \<Rightarrow> Position \<Rightarrow> PieceColor \<Rightarrow> Position list" where
  "getKingMoves b from clr =
     offsetMoves b from clr
       [(-1, -1), (-1, 0), (-1, 1), (0, -1), (0, 1), (1, -1), (1, 0), (1, 1)]"

text \<open>
  The \<^verbatim>\<open>while\<close> loop of \<open>getSlidingMoves\<close> along one direction, starting at the square
  \<open>(r, c)\<close>. The direction tables of the source hold no \<open>(0, 0)\<close> entry; the guard
  \<open>dRow \<noteq> 0 \<or> dCol \<noteq> 0\<close> only makes the recursion total.
\<close>

function slide :: "Board \<Rightarrow> PieceColor \<Rightarrow> int \<Rightarrow> int \<Rightarrow> int \<Rightarrow> int \<Rightarrow> Position list" where
  "slide b clr r c dRow dCol =
     (if isValidPosition \<lparr>row = r, col = c\<rparr> \<and> (dRow \<noteq> 0 \<or> dCol \<noteq> 0)
      then (case getPieceAt b \<lparr>row = r, col = c\<rparr> of
              None \<Rightarrow> \<lparr>row = r, col = c\<rparr> # slide b clr (r + dRow) (c + dCol) dRow dCol
            | Some target \<Rightarrow> if color target \<noteq> clr then [\<lparr>row = r, col = c\<rparr>] else [])
      else [])"
  by pat_completeness auto
termination
  by (relation "measure (\<lambda>(b, clr, r, c, dRow, dCol).
        if dRow > 0 then nat (8 - r) else if dRow < 0 then nat (r + 1)
        else if dCol > 0 then nat (8 - c) else nat (c + 1))")
     (auto simp: isValidPosition_def)

definition getSlidingMoves :: "Board \<Rightarrow> Position \<Rightarrow> PieceColor \<Rightarrow> (int \<times> int) list \<Rightarrow> Position list" where
  "getSlidingMoves b from clr directions =
     concat (map (\<lambda>(dRow, dCol). slide b clr (row from + dRow) (col from + dCol) dRow dCol)
                 directions)"

definition getBishopMoves :: "Board \<Rightarrow> Position \<Rightarrow> PieceColor \<Rightarrow> Position list" where
  "getBishopMoves b from clr =
     getSlidingMoves b from clr [(-1, -1), (-1, 1), (1, -1), (1, 1)]"

definition getRookMoves :: "Board \<Rightarrow> Position \<Rightarrow> PieceColor \<Rightarrow> Position list" where
  "getRookMoves b from clr =
     getSlidingMoves b from clr [(-1, 0), (1, 0), (0, -1), (0, 1)]"

definition getQueenMoves :: "Board \<Rightarrow> Position \<Rightarrow> PieceColor \<Rightarrow> Position list" where
  "getQueenMoves b from clr =
     getSlidingMoves b from clr
       [(-1, -1), (-1, 0), (-1, 1), (0, -1), (0, 1), (1, -1), (1, 0), (1, 1)]"

definition getPseudoLegalMoves :: "Board \<Rightarrow> Position \<Rightarrow> Position option \<Rightarrow> Position list" where
  "getPseudoLegalMoves b from enPassant =
     (case getPieceAt b from of
        None \<Rightarrow> []
      | Some p \<Rightarrow>
          (case ptype p of
             pawn \<Rightarrow> getPawnMoves b from (color p) enPassant
           | knight \<Rightarrow> getKnightMoves b from (color p)
           | bishop \<Rightarrow> getBishopMoves b from (color p)
           | rook \<Rightarrow> getRookMoves b from (color p)
           | queen \<Rightarrow> getQueenMoves b from (color p)
           | king \<Rightarrow> getKingMoves b from (color p)))"

section \<open>Attacks and check\<close>

definition isSquareUnderAttack :: "Board \<Rightarrow> Position \<Rightarrow> PieceColor \<Rightarrow> bool" where
  "isSquareUnderAttack b pos byColor =
     list_ex (\<lambda>sq. case cell b (row sq) (col sq) of
                     None \<Rightarrow> False
                   | Some p \<Rightarrow>
                       color p = byColor \<and>
                       list_ex (\<lambda>move. row move = row pos \<and> col move = col pos)
                               (getPseudoLegalMoves b sq None))
             allSquares"

definition isInCheck :: "Board \<Rightarrow> PieceColor \<Rightarrow> bool" where
  "isInCheck b clr =
     (case findKing b clr of
        None \<Rightarrow> False
      | Some kingPos \<Rightarrow> isSquareUnderAttack b kingPos (opponent clr))"

section \<open>Legal moves\<close>

datatype CastleSide = kingside | queenside

definition canCastle :: "Board \<Rightarrow> PieceColor \<Rightarrow> CastleSide \<Rightarrow> bool" where
  "canCastle b clr side =
     (let r = (if clr = white then 7 else 0); kingCol = 4
      in if isInCheck b clr then False
         else if side = kingside
         then (if cell b r 5 \<noteq> None \<or> cell b r 6 \<noteq> None then False
               else if isInCheck (setCell (setCell b r 5 (cell b r kingCol)) r kingCol None) clr
               then False
               else if isSquareUnderAttack b \<lparr>row = r, col = 6\<rparr> (opponent clr) then False
               else True)
         else (if cell b r 1 \<noteq> None \<or> cell b r 2 \<noteq> None \<or> cell b r 3 \<noteq> None then False
               else if isInCheck (setCell (setCell b r 3 (cell b r kingCol)) r kingCol None) clr
               then False
               else if isSquareUnderAttack b \<lparr>row = r, col = 2\<rparr> (opponent clr) then False
               else True))"

text \<open>The scratch board of the legality filter: the move played on a copy of the board.\<close>

definition testBoard :: "Board \<Rightarrow> Piece \<Rightarrow> Position \<Rightarrow> Position \<Rightarrow> Position option \<Rightarrow> Board" where
  "testBoard b p from to enPassant =
     (let tb = setCell (setCell b (row to) (col to) (cell b (row from) (col from)))
                       (row from) (col from) None
      in case enPassant of
           Some ep \<Rightarrow>
             if ptype p = pawn \<and> row to = row ep \<and> col to = col ep
             then setCell tb (if color p = white then row to + 1 else row to - 1) (col to) None
             else tb
         | None \<Rightarrow> tb)"

definition getLegalMoves :: "Board \<Rightarrow> Position \<Rightarrow> Position option \<Rightarrow> CastlingRights \<Rightarrow> Position list" where
  "getLegalMoves b from enPassant rights =
     (case getPieceAt b from of
        None \<Rightarrow> []
      | Some p \<Rightarrow>
          (let r = (if color p = white then 7 else 0);
               moves = getPseudoLegalMoves b from enPassant
                 @ (if ptype p = king
                    then (if color p = white \<and> whiteKingSide rights \<and> canCastle b (color p) kingside
                          then [\<lparr>row = r, col = 6\<rparr>] else [])
                       @ (if color p = white \<and> whiteQueenSide rights \<and> canCastle b (color p) queenside
                          then [\<lparr>row = r, col = 2\<rparr>] else [])
                       @ (if color p = black \<and> blackKingSide rights \<and> canCastle b (color p) kingside
                          then [\<lparr>row = r, col = 6\<rparr>] else [])
                       @ (if color p = black \<and> blackQueenSide rights \<and> canCastle b (color p) queenside
                          then [\<lparr>row = r, col = 2\<rparr>] else [])
                    else [])
           in filter (\<lambda>to. \<not> isInCheck (testBoard b p from to enPassant) (color p)) moves))"

section \<open>State transition\<close>

definition checkHasLegalMoves :: "Board \<Rightarrow> PieceColor \<Rightarrow> Position option \<Rightarrow> CastlingRights \<Rightarrow> bool" where
  "checkHasLegalMoves b clr enPassant rights =
     list_ex (\<lambda>sq. case cell b (row sq) (col sq) of
                     None \<Rightarrow> False
                   | Some p \<Rightarrow> color p = clr \<and> getLegalMoves b sq enPassant rights \<noteq> [])
             allSquares"

text \<open>\<^verbatim>\<open>piece.type.charAt(0).toUpperCase()\<close>: the first letter of the type's name.\<close>

definition typeInitial :: "PieceType \<Rightarrow> char" where
  "typeInitial t =
     (case t of king \<Rightarrow> CHR ''K'' | queen \<Rightarrow> CHR ''Q'' | rook \<Rightarrow> CHR ''R''
              | bishop \<Rightarrow> CHR ''B'' | knight \<Rightarrow> CHR ''K'' | pawn \<Rightarrow> CHR ''P'')"

text \<open>
  The rank \<^verbatim>\<open>8 - to.row\<close> printed as a string: the destination of a move is on the board,
  so the number has one digit.
\<close>

definition showRank :: "int \<Rightarrow> string" where
  "showRank n = [''0123456789'' ! nat n]"

definition getMoveNotation :: "Piece \<Rightarrow> Position \<Rightarrow> Position \<Rightarrow> bool \<Rightarrow> bool \<Rightarrow> bool \<Rightarrow> string" where
  "getMoveNotation p from to isCapture enPassantMove castling =
     (if castling then (if col to = 6 then ''O-O'' else ''O-O-O'')
      else
        (let files = ''abcdefgh'';
             pieceSymbol = (if ptype p = pawn then [] else [typeInitial (ptype p)]);
             captureSymbol = (if isCapture \<or> enPassantMove then ''x'' else []);
             fromFile = (if ptype p = pawn \<and> isCapture then [files ! nat (col from)] else []);
             toSquare = [files ! nat (col to)] @ showRank (8 - row to)
         in pieceSymbol @ fromFile @ captureSymbol @ toSquare))"

text \<open>
  The board of the next state: the en-passant removal, the rook of a castling move, then
  the piece itself, on a copy of the board.
\<close>

definition moveBoard :: "Board \<Rightarrow> Piece \<Rightarrow> Position \<Rightarrow> Position \<Rightarrow> Position option \<Rightarrow> Board" where
  "moveBoard b p from to enPassant =
     (let enPassantMove =
            (ptype p = pawn \<and>
             (case enPassant of Some ep \<Rightarrow> row to = row ep \<and> col to = col ep | None \<Rightarrow> False));
          captureRow = (if color p = white then row to + 1 else row to - 1);
          b1 = (if enPassantMove then setCell b captureRow (col to) None else b);
          castling = (ptype p = king \<and> \<bar>col to - col from\<bar> = 2);
          rookFromCol = (if col to = 6 then 7 else 0);
          rookToCol = (if col to = 6 then 5 else 3);
          b2 = (if castling
                then setCell (setCell b1 (row to) rookToCol (cell b1 (row to) rookFromCol))
                             (row to) rookFromCol None
                else b1)
      in setCell (setCell b2 (row to) (col to) (Some p)) (row from) (col from) None)"

text \<open>
  The two \<^verbatim>\<open>push\<close> calls on \<^verbatim>\<open>newCapturedPieces[piece.color]\<close>: the pawn taken en passant,
  or else the piece that stood on the destination.
\<close>

definition moveCaptured ::
  "(PieceColor \<Rightarrow> Piece list) \<Rightarrow> Board \<Rightarrow> Piece \<Rightarrow> Position \<Rightarrow> Position option
     \<Rightarrow> (PieceColor \<Rightarrow> Piece list)" where
  "moveCaptured captured b p to enPassant =
     (let capturedOnSquare = cell b (row to) (col to);
          enPassantMove =
            (ptype p = pawn \<and>
             (case enPassant of Some ep \<Rightarrow> row to = row ep \<and> col to = col ep | None \<Rightarrow> False));
          captureRow = (if color p = white then row to + 1 else row to - 1);
          c1 = (if enPassantMove
                then (case cell b captureRow (col to) of
                        Some capturedPawn \<Rightarrow>
                          captured(color p := captured (color p) @ [capturedPawn])
                      | None \<Rightarrow> captured)
                else captured)
      in case capturedOnSquare of
           Some cp \<Rightarrow> if \<not> enPassantMove then c1(color p := c1 (color p) @ [cp]) else c1
         | None \<Rightarrow> c1)"

definition moveCastlingRights :: "CastlingRights \<Rightarrow> Piece \<Rightarrow> Position \<Rightarrow> CastlingRights" where
  "moveCastlingRights rights p from =
     (let r1 = (if ptype p = king
                then (if color p = white
                      then rights\<lparr>whiteKingSide := False, whiteQueenSide := False\<rparr>
                      else rights\<lparr>blackKingSide := False, blackQueenSide := False\<rparr>)
                else rights)
      in if ptype p = rook
         then (if color p = white
               then (let r2 = (if row from = 7 \<and> col from = 7
                               then r1\<lparr>whiteKingSide := False\<rparr> else r1)
                     in if row from = 7 \<and> col from = 0
                        then r2\<lparr>whiteQueenSide := False\<rparr> else r2)
               else (let r2 = (if row from = 0 \<and> col from = 7
                               then r1\<lparr>blackKingSide := False\<rparr> else r1)
                     in if row from = 0 \<and> col from = 0
                        then r2\<lparr>blackQueenSide := False\<rparr> else r2))
         else r1)"

text \<open>
  \<^verbatim>\<open>(from.row + to.row) / 2\<close> is computed only when the rows differ by two, so the
  division is exact.
\<close>

definition makeMove :: "GameState \<Rightarrow> Position \<Rightarrow> Position \<Rightarrow> GameState option" where
  "makeMove gameState from to =
     (case getPieceAt (board gameState) from of
        None \<Rightarrow> None
      | Some p \<Rightarrow>
          if color p \<noteq> currentPlayer gameState then None
          else if \<not> list_ex (\<lambda>move. row move = row to \<and> col move = col to)
                     (getLegalMoves (board gameState) from (enPassantTarget gameState)
                        (castlingRights gameState))
          then None
          else
            (let capturedOnSquare = cell (board gameState) (row to) (col to);
                 enPassantMove =
                   (ptype p = pawn \<and>
                    (case enPassantTarget gameState of
                       Some ep \<Rightarrow> row to = row ep \<and> col to = col ep
                     | None \<Rightarrow> False));
                 castling = (ptype p = king \<and> \<bar>col to - col from\<bar> = 2);
                 newBoard = moveBoard (board gameState) p from to (enPassantTarget gameState);
                 newCapturedPieces =
                   moveCaptured (capturedPieces gameState) (board gameState) p to
                     (enPassantTarget gameState);
                 newEnPassantTarget =
                   (if ptype p = pawn \<and> \<bar>row to - row from\<bar> = 2
                    then Some \<lparr>row = (row from + row to) div 2, col = col from\<rparr>
                    else None);
                 newCastlingRights = moveCastlingRights (castlingRights gameState) p from;
                 move = \<lparr>moveFrom = from, moveTo = to, piece = p,
                         capturedPiece = capturedOnSquare,
                         isEnPassant = enPassantMove, isCastling = castling,
                         moveNotation =
                           getMoveNotation p from to (capturedOnSquare \<noteq> None)
                             enPassantMove castling\<rparr>;
                 nextPlayer = (if color p = white then black else white);
                 check = isInCheck newBoard nextPlayer;
                 hasLegalMoves =
                   checkHasLegalMoves newBoard nextPlayer newEnPassantTarget newCastlingRights
             in Some \<lparr>board = newBoard,
                      currentPlayer = nextPlayer,
                      selectedSquare = None,
                      legalMoves = [],
                      moveHistory = moveHistory gameState @ [move],
                      capturedPieces = newCapturedPieces,
                      isCheck = check,
                      isCheckmate = (check \<and> \<not> hasLegalMoves),
                      isStalemate = (\<not> check \<and> \<not> hasLegalMoves),
                      lastMove = Some move,
                      enPassantTarget = newEnPassantTarget,
                      castlingRights = newCastlingRights\<rparr>))"

text \<open>
  \<^verbatim>\<open>newCapturedPieces = { ...gameState.capturedPieces }\<close> copies the two array references,
  not the arrays, so each \<^verbatim>\<open>push\<close> is also visible through the argument. These pushes
  are the only writes of \<open>makeMove\<close> that reach the argument, and they come after both
  early returns. \<open>makeMoveArgument\<close> is the argument as the call leaves it.
\<close>

definition makeMoveArgument :: "GameState \<Rightarrow> Position \<Rightarrow> Position \<Rightarrow> GameState" where
  "makeMoveArgument gameState from to =
     (case makeMove gameState from to of
        None \<Rightarrow> gameState
      | Some next \<Rightarrow> gameState\<lparr>capturedPieces := capturedPieces next\<rparr>)"

section \<open>Promotion\<close>

definition shouldPromotePawn :: "Board \<Rightarrow> Position \<Rightarrow> bool" where
  "shouldPromotePawn b pos =
     (case getPieceAt b pos of
        None \<Rightarrow> False
      | Some p \<Rightarrow>
          if ptype p \<noteq> pawn then False
          else (color p = white \<and> row pos = 0) \<or> (color p = black \<and> row pos = 7))"

text \<open>
  \<open>promotePawn\<close> indexes the copied board without a bounds check: a row off the board
  reads \<^verbatim>\<open>undefined[pos.col]\<close>, which throws; a column off the board reads \<^verbatim>\<open>undefined\<close>,
  which the test \<^verbatim>\<open>if (piece)\<close> treats like an empty square.
\<close>

datatype error = TypeError

definition promotePawn :: "GameState \<Rightarrow> Position \<Rightarrow> PieceType \<Rightarrow> error + GameState" where
  "promotePawn gameState pos promoteTo =
     (if row pos < 0 \<or> row pos \<ge> 8 then Inl TypeError
      else
        (case (if 0 \<le> col pos \<and> col pos < 8
               then cell (board gameState) (row pos) (col pos) else None) of
           Some p \<Rightarrow>
             Inr (gameState\<lparr>board :=
                    setCell (board gameState) (row pos) (col pos)
                      (Some (p\<lparr>ptype := promoteTo\<rparr>))\<rparr>)
         | None \<Rightarrow> Inr (gameState\<lparr>board := board gameState\<rparr>)))"

section \<open>Evaluation (the search module, utils/chessAI)\<close>

definition PIECE_VALUES :: "PieceType \<Rightarrow> int" where
  "PIECE_VALUES t =
     (case t of pawn \<Rightarrow> 100 | knight \<Rightarrow> 320 | bishop \<Rightarrow> 330
              | rook \<Rightarrow> 500 | queen \<Rightarrow> 900 | king \<Rightarrow> 20000)"

definition PAWN_TABLE :: "int list list" where
  "PAWN_TABLE =
     [[0, 0, 0, 0, 0, 0, 0, 0],
      [50, 50, 50, 50, 50, 50, 50, 50],
      [10, 10, 20, 30, 30, 20, 10, 10],
      [5, 5, 10, 25, 25, 10, 5, 5],
      [0, 0, 0, 20, 20, 0, 0, 0],
      [5, -5, -10, 0, 0, -10, -5, 5],
      [5, 10, 10, -20, -20, 10, 10, 5],
      [0, 0, 0, 0, 0, 0, 0, 0]]"

definition KNIGHT_TABLE :: "int list list" where
  "KNIGHT_TABLE =
     [[-50, -40, -30, -30, -30, -30, -40, -50],
      [-40, -20, 0, 0, 0, 0, -20, -40],
      [-30, 0, 10, 15, 15, 10, 0, -30],
      [-30, 5, 15, 20, 20, 15, 5, -30],
      [-30, 0, 15, 20, 20, 15, 0, -30],
      [-30, 5, 10, 15, 15, 10, 5, -30],
      [-40, -20, 0, 5, 5, 0, -20, -40],
      [-50, -40, -30, -30, -30, -30, -40, -50]]"

definition BISHOP_TABLE :: "int list list" where
  "BISHOP_TABLE =
     [[-20, -10, -10, -10, -10, -10, -10, -20],
      [-10, 0, 0, 0, 0, 0, 0, -10],
      [-10, 0, 5, 10, 10, 5, 0, -10],
      [-10, 5, 5, 10, 10, 5, 5, -10],
      [-10, 0, 10, 10, 10, 10, 0, -10],
      [-10, 10, 10, 10, 10, 10, 10, -10],
      [-10, 5, 0, 0, 0, 0, 5, -10],
      [-20, -10, -10, -10, -10, -10, -10, -20]]"

definition ROOK_TABLE :: "int list list" where
  "ROOK_TABLE =
     [[0, 0, 0, 0, 0, 0, 0, 0],
      [5, 10, 10, 10, 10, 10, 10, 5],
      [-5, 0, 0, 0, 0, 0, 0, -5],
      [-5, 0, 0, 0, 0, 0, 0, -5],
      [-5, 0, 0, 0, 0, 0, 0, -5],
      [-5, 0, 0, 0, 0, 0, 0, -5],
      [-5, 0, 0, 0, 0, 0, 0, -5],
      [0, 0, 0, 5, 5, 0, 0, 0]]"

definition QUEEN_TABLE :: "int list list" where
  "QUEEN_TABLE =
     [[-20, -10, -10, -5, -5, -10, -10, -20],
      [-10, 0, 0, 0, 0, 0, 0, -10],
      [-10, 0, 5, 5, 5, 5, 0, -10],
      [-5, 0, 5, 5, 5, 5, 0, -5],
      [0, 0, 5, 5, 5, 5, 0, -5],
      [-10, 5, 5, 5, 5, 5, 0, -10],
      [-10, 0, 5, 0, 0, 0, 0, -10],
      [-20, -10, -10, -5, -5, -10, -10, -20]]"

definition KING_TABLE :: "int list list" where
  "KING_TABLE =
     [[-30, -40, -40, -50, -50, -40, -40, -30],
      [-30, -40, -40, -50, -50, -40, -40, -30],
      [-30, -40, -40, -50, -50, -40, -40, -30],
      [-30, -40, -40, -50, -50, -40, -40, -30],
      [-20, -30, -30, -40, -40, -30, -30, -20],
      [-10, -20, -20, -20, -20, -20, -20, -10],
      [20, 20, 0, 0, 0, 0, 20, 20],
      [20, 30, 10, 0, 0, 10, 30, 20]]"

definition getPieceSquareValue :: "Piece \<Rightarrow> int \<Rightarrow> int \<Rightarrow> int" where
  "getPieceSquareValue p r c =
     (let adjustedRow = (if color p = white then r else 7 - r)
      in case ptype p of
           pawn \<Rightarrow> PAWN_TABLE ! nat adjustedRow ! nat c
         | knight \<Rightarrow> KNIGHT_TABLE ! nat adjustedRow ! nat c
         | bishop \<Rightarrow> BISHOP_TABLE ! nat adjustedRow ! nat c
         | rook \<Rightarrow> ROOK_TABLE ! nat adjustedRow ! nat c
         | queen \<Rightarrow> QUEEN_TABLE ! nat adjustedRow ! nat c
         | king \<Rightarrow> KING_TABLE ! nat adjustedRow ! nat c)"

definition evaluateBoard :: "Board \<Rightarrow> int" where
  "evaluateBoard b =
     foldl (\<lambda>score sq.
              case cell b (row sq) (col sq) of
                None \<Rightarrow> score
              | Some p \<Rightarrow>
                  (let materialValue = PIECE_VALUES (ptype p);
                       positionValue = getPieceSquareValue p (row sq) (col sq);
                       totalValue = materialValue + positionValue
                   in if color p = black then score + totalValue else score - totalValue))
           0 allSquares"

section \<open>Search\<close>

text \<open>
  Scores are JavaScript numbers: the integers of the evaluation, and the two infinities
  the search starts its bounds and running best from.
\<close>

datatype Score = NegInfinity | Finite int | PosInfinity

instantiation Score :: linorder
begin

fun less_eq_Score :: "Score \<Rightarrow> Score \<Rightarrow> bool" where
  "less_eq_Score NegInfinity _ = True"
| "less_eq_Score (Finite a) NegInfinity = False"
| "less_eq_Score (Finite a) (Finite b) = (a \<le> b)"
| "less_eq_Score (Finite a) PosInfinity = True"
| "less_eq_Score PosInfinity PosInfinity = True"
| "less_eq_Score PosInfinity _ = False"

definition less_Score :: "Score \<Rightarrow> Score \<Rightarrow> bool" where
  "less_Score a b \<longleftrightarrow> a \<le> b \<and> \<not> b \<le> a"

instance
proof
  fix x y z :: Score
  show "(x < y) = (x \<le> y \<and> \<not> y \<le> x)" by (simp add: less_Score_def)
  show "x \<le> x" by (cases x) simp_all
  show "x \<le> y \<Longrightarrow> y \<le> z \<Longrightarrow> x \<le> z" by (cases x; cases y; cases z) simp_all
  show "x \<le> y \<Longrightarrow> y \<le> x \<Longrightarrow> x = y" by (cases x; cases y) simp_all
  show "x \<le> y \<or> y \<le> x" by (cases x; cases y) auto
qed

end

text \<open>A candidate \<^verbatim>\<open>{ from, to }\<close> of the search is a pair of positions.\<close>

type_synonym FromTo = "Position \<times> Position"

record MinimaxResult =
  score :: Score
  move :: "FromTo option"

text \<open>The branch of \<open>minimax\<close> taken at depth 0 and in a checkmate or stalemate state.\<close>

definition leafResult :: "GameState \<Rightarrow> bool \<Rightarrow> MinimaxResult" where
  "leafResult gameState maximizingPlayer =
     (let s0 = evaluateBoard (board gameState);
          s1 = (if isCheckmate gameState then (if maximizingPlayer then -50000 else 50000)
                else if isStalemate gameState then 0
                else s0);
          s2 = (if isCheck gameState then s1 + (if maximizingPlayer then -50 else 50) else s1)
      in \<lparr>score = Finite s2, move = None\<rparr>)"

text \<open>The moves of the side to move, in the order of the three nested loops.\<close>

definition allMoves :: "GameState \<Rightarrow> FromTo list" where
  "allMoves gameState =
     concat (map (\<lambda>sq.
       case getPieceAt (board gameState) sq of
         None \<Rightarrow> []
       | Some p \<Rightarrow>
           if color p = currentPlayer gameState
           then map (\<lambda>to. (sq, to))
                  (getLegalMoves (board gameState) sq (enPassantTarget gameState)
                     (castlingRights gameState))
           else []) allSquares)"

text \<open>
  \<^verbatim>\<open>allMoves.sort((a, b) => captureB - captureA)\<close>: the sort of the language is stable, so
  the moves onto an occupied square come first and the order is otherwise kept;
  \<open>sort_key\<close> is a stable insertion sort.
\<close>

definition sortedMoves :: "GameState \<Rightarrow> FromTo list" where
  "sortedMoves gameState =
     sort_key (\<lambda>m. if getPieceAt (board gameState) (snd m) \<noteq> None then (0::nat) else 1)
       (allMoves gameState)"

text \<open>
  The two \<^verbatim>\<open>for\<close> loops of \<open>minimax\<close> over the sorted moves; \<open>search\<close> is the recursive
  call one ply deeper.
\<close>

fun maxLoop ::
  "(GameState \<Rightarrow> Score \<Rightarrow> Score \<Rightarrow> MinimaxResult) \<Rightarrow> GameState \<Rightarrow> FromTo list
     \<Rightarrow> Score \<Rightarrow> Score \<Rightarrow> Score \<Rightarrow> FromTo option \<Rightarrow> MinimaxResult" where
  "maxLoop search gameState [] alpha beta maxScore bestMove =
     \<lparr>score = maxScore, move = bestMove\<rparr>"
| "maxLoop search gameState (m # ms) alpha beta maxScore bestMove =
     (case makeMove gameState (fst m) (snd m) of
        None \<Rightarrow> maxLoop search gameState ms alpha beta maxScore bestMove
      | Some newGameState \<Rightarrow>
          (let result = search newGameState alpha beta;
               maxScore' = (if score result > maxScore then score result else maxScore);
               bestMove' = (if score result > maxScore then Some m else bestMove);
               alpha' = max alpha (score result)
           in if beta \<le> alpha' then \<lparr>score = maxScore', move = bestMove'\<rparr>
              else maxLoop search gameState ms alpha' beta maxScore' bestMove'))"

fun minLoop ::
  "(GameState \<Rightarrow> Score \<Rightarrow> Score \<Rightarrow> MinimaxResult) \<Rightarrow> GameState \<Rightarrow> FromTo list
     \<Rightarrow> Score \<Rightarrow> Score \<Rightarrow> Score \<Rightarrow> FromTo option \<Rightarrow> MinimaxResult" where
  "minLoop search gameState [] alpha beta minScore bestMove =
     \<lparr>score = minScore, move = bestMove\<rparr>"
| "minLoop search gameState (m # ms) alpha beta minScore bestMove =
     (case makeMove gameState (fst m) (snd m) of
        None \<Rightarrow> minLoop search gameState ms alpha beta minScore bestMove
      | Some newGameState \<Rightarrow>
          (let result = search newGameState alpha beta;
               minScore' = (if score result < minScore then score result else minScore);
               bestMove' = (if score result < minScore then Some m else bestMove);
               beta' = min beta (score result)
           in if beta' \<le> alpha then \<lparr>score = minScore', move = bestMove'\<rparr>
              else minLoop search gameState ms alpha beta' minScore' bestMove'))"

text \<open>
  The depth is a ply count that the recursion decreases by one down to 0 (the callers pass
  2, 3 or 4), so it is a natural number.
\<close>

fun minimax :: "GameState \<Rightarrow> nat \<Rightarrow> Score \<Rightarrow> Score \<Rightarrow> bool \<Rightarrow> MinimaxResult" where
  "minimax gameState 0 alpha beta maximizingPlayer = leafResult gameState maximizingPlayer"
| "minimax gameState (Suc depth) alpha beta maximizingPlayer =
     (if isCheckmate gameState \<or> isStalemate gameState
      then leafResult gameState maximizingPlayer
      else if maximizingPlayer
      then maxLoop (\<lambda>s a b. minimax s depth a b False) gameState (sortedMoves gameState)
             alpha beta NegInfinity None
      else minLoop (\<lambda>s a b. minimax s depth a b True) gameState (sortedMoves gameState)
             alpha beta PosInfinity None)"

definition getBestMove :: "GameState \<Rightarrow> nat \<Rightarrow> FromTo option" where
  "getBestMove gameState depth = move (minimax gameState depth NegInfinity PosInfinity True)"

section \<open>Example positions\<close>

abbreviation sq :: "int \<Rightarrow> int \<Rightarrow> Position" where
  "sq r c \<equiv> \<lparr>row = r, col = c\<rparr>"

definition emptyBoard :: Board where
  "emptyBoard = replicate 8 (replicate 8 None)"

definition boardOf :: "(int \<times> int \<times> PieceType \<times> PieceColor) list \<Rightarrow> Board" where
  "boardOf ps =
     foldl (\<lambda>b (r, c, t, clr). setCell b r c (Some \<lparr>ptype = t, color = clr\<rparr>)) emptyBoard ps"

definition rightsOf :: "bool \<Rightarrow> bool \<Rightarrow> bool \<Rightarrow> bool \<Rightarrow> CastlingRights" where
  "rightsOf wk wq bk bq =
     \<lparr>whiteKingSide = wk, whiteQueenSide = wq, blackKingSide = bk, blackQueenSide = bq\<rparr>"

text \<open>A state as the user interface creates it: no history, no flags, no en-passant target.\<close>

definition stateOf :: "Board \<Rightarrow> PieceColor \<Rightarrow> CastlingRights \<Rightarrow> GameState" where
  "stateOf b clr rights =
     \<lparr>board = b, currentPlayer = clr, selectedSquare = None, legalMoves = [],
      moveHistory = [], capturedPieces = (\<lambda>_. []),
      isCheck = False, isCheckmate = False, isStalemate = False,
      lastMove = None, enPassantTarget = None, castlingRights = rights\<rparr>"

definition initialState :: GameState where
  "initialState = stateOf createInitialBoard white (rightsOf True True True True)"

text \<open>A white pawn on its farthest rank, the two kings on their home squares.\<close>

definition promotionState :: GameState where
  "promotionState =
     stateOf (boardOf [(0, 0, pawn, white), (0, 4, king, black), (7, 4, king, white)])
       black (rightsOf False False False False)"

text \<open>
  Black to move; the black king on b2 can take the white rook on a1, which has never
  moved, and the white king is on e1.
\<close>

definition rookCaptureState :: GameState where
  "rookCaptureState =
     stateOf (boardOf [(1, 7, pawn, black), (6, 1, king, black),
                       (7, 0, rook, white), (7, 4, king, white)])
       black (rightsOf False True False False)"

text \<open>Black to move; the rook on a8 mates on a1.\<close>

definition backRankState :: GameState where
  "backRankState =
     stateOf (boardOf [(0, 0, rook, black), (0, 7, king, black),
                       (6, 5, pawn, white), (6, 6, pawn, white), (6, 7, pawn, white),
                       (7, 6, king, white)])
       black (rightsOf False False False False)"

text \<open>White to move and free to castle on the king's side.\<close>

definition castleState :: GameState where
  "castleState =
     stateOf (boardOf [(0, 4, king, black), (7, 4, king, white), (7, 7, rook, white)])
       white (rightsOf True False False False)"

text \<open>The state after the rook has moved to a1 in \<open>backRankState\<close>.\<close>

definition backRankMate :: GameState where
  "backRankMate = the (makeMove backRankState (sq 0 0) (sq 7 0))"

text \<open>The state after the white e-pawn has advanced two squares from the initial position.\<close>

definition afterE4 :: GameState where
  "afterE4 = the (makeMove initialState (sq 6 4) (sq 4 4))"

text \<open>The state after the black king has taken the rook on a1 in \<open>rookCaptureState\<close>.\<close>

definition afterRookCapture :: GameState where
  "afterRookCapture = the (makeMove rookCaptureState (sq 6 1) (sq 7 0))"

text \<open>The state after the white king has then moved from e1 to c1.\<close>

definition afterCornerCastle :: GameState where
  "afterCornerCastle = the (makeMove afterRookCapture (sq 7 4) (sq 7 2))"

text \<open>White to move with a lone king in the corner a1; the black king is on h8.\<close>

definition kingsOnlyState :: GameState where
  "kingsOnlyState =
     stateOf (boardOf [(0, 7, king, black), (7, 0, king, white)])
       white (rightsOf False False False False)"

section \<open>Notions used to state the properties\<close>

text \<open>
  The home rank of a colour (\<^verbatim>\<open>color === 'white' ? 7 : 0\<close> in \<open>canCastle\<close> and
  \<open>getLegalMoves\<close>) and the castling flag of a colour and a wing.
\<close>

definition homeRow :: "PieceColor \<Rightarrow> int" where
  "homeRow clr = (if clr = white then 7 else 0)"

definition castlingFlag :: "CastlingRights \<Rightarrow> PieceColor \<Rightarrow> CastleSide \<Rightarrow> bool" where
  "castlingFlag rights clr side =
     (if clr = white
      then (if side = kingside then whiteKingSide rights else whiteQueenSide rights)
      else (if side = kingside then blackKingSide rights else blackQueenSide rights))"

text \<open>
  The corner a castling move takes its rook from (\<^verbatim>\<open>rookFromCol\<close> in \<open>makeMove\<close>) and the
  square it puts it on (\<^verbatim>\<open>rookToCol\<close>), on the rank of the destination.
\<close>

definition rookCorner :: "Position \<Rightarrow> Position" where
  "rookCorner to = \<lparr>row = row to, col = (if col to = 6 then 7 else 0)\<rparr>"

definition rookTarget :: "Position \<Rightarrow> Position" where
  "rookTarget to = \<lparr>row = row to, col = (if col to = 6 then 5 else 3)\<rparr>"

text \<open>The number of kings of one colour on a board.\<close>

definition countKings :: "Board \<Rightarrow> PieceColor \<Rightarrow> nat" where
  "countKings b clr =
     length (filter (\<lambda>s. case cell b (row s) (col s) of
                           None \<Rightarrow> False
                         | Some p \<Rightarrow> ptype p = king \<and> color p = clr) allSquares)"

text \<open>
  The fields of a state that the search reads: two states that agree on them hold the
  same position. The other fields (history, last move, captured pieces, selection) are
  bookkeeping.
\<close>

definition samePosition :: "GameState \<Rightarrow> GameState \<Rightarrow> bool" where
  "samePosition s t \<longleftrightarrow>
     board s = board t \<and> currentPlayer s = currentPlayer t \<and>
     enPassantTarget s = enPassantTarget t \<and> castlingRights s = castlingRights t \<and>
     isCheck s = isCheck t \<and> isCheckmate s = isCheckmate t \<and> isStalemate s = isStalemate t"

text \<open>
  The moves a maximizing loop examines, each with the score its recursive call returned,
  in the order of examination and up to the move at which the loop breaks.
\<close>

fun maxTrace ::
  "(GameState \<Rightarrow> Score \<Rightarrow> Score \<Rightarrow> MinimaxResult) \<Rightarrow> GameState \<Rightarrow> FromTo list
     \<Rightarrow> Score \<Rightarrow> Score \<Rightarrow> (FromTo \<times> Score) list" where
  "maxTrace search gameState [] alpha beta = []"
| "maxTrace search gameState (m # ms) alpha beta =
     (case makeMove gameState (fst m) (snd m) of
        None \<Rightarrow> maxTrace search gameState ms alpha beta
      | Some newGameState \<Rightarrow>
          (let result = search newGameState alpha beta;
               alpha' = max alpha (score result)
           in (m, score result) #
              (if beta \<le> alpha' then [] else maxTrace search gameState ms alpha' beta)))"

text \<open>
  What it means for a maximizing loop that started from the running best \<open>(best, bm)\<close>
  and examined the trace \<open>tr\<close> to return \<open>r\<close> with the first best move kept: if no
  score of the trace exceeds \<open>best\<close>, the running best is returned unchanged; otherwise
  the returned move is the first one of the trace whose score is the returned score, every
  earlier score is strictly smaller and no later score is greater.
\<close>

definition keepsFirstBest ::
  "(FromTo \<times> Score) list \<Rightarrow> Score \<Rightarrow> FromTo option \<Rightarrow> MinimaxResult \<Rightarrow> bool" where
  "keepsFirstBest tr best bm r \<longleftrightarrow>
     ((\<forall>x\<in>set tr. snd x \<le> best) \<longrightarrow> r = \<lparr>score = best, move = bm\<rparr>) \<and>
     (\<not> (\<forall>x\<in>set tr. snd x \<le> best) \<longrightarrow>
        (\<exists>pre m post. tr = pre @ (m, score r) # post \<and>
           (\<forall>x\<in>set pre. snd x < score r) \<and> (\<forall>x\<in>set post. snd x \<le> score r) \<and>
           best < score r \<and> move r = Some m))"

text \<open>The moves examined at the root of \<open>getBestMove gameState (depth + 1)\<close>.\<close>

definition rootTrace :: "GameState \<Rightarrow> nat \<Rightarrow> (FromTo \<times> Score) list" where
  "rootTrace gameState depth =
     maxTrace (\<lambda>s a b. minimax s depth a b False) gameState (sortedMoves gameState)
       NegInfinity PosInfinity"

section \<open>Boards as grids\<close>

lemma wf_board_row_length:
  "wf_board b \<Longrightarrow> 0 \<le> r \<Longrightarrow> r < 8 \<Longrightarrow> length (b ! nat r) = 8"
  by (simp add: wf_board_def list_all_length)

lemma wf_board_setCell: "wf_board b \<Longrightarrow> wf_board (setCell b r c v)"
proof -
  assume wf: "wf_board b"
  have "length (b[nat r := (b ! nat r)[nat c := v]] ! n) = 8" if "n < 8" for n
    using wf that by (cases "n = nat r") (simp_all add: wf_board_def list_all_length)
  then show ?thesis
    using wf by (simp add: wf_board_def setCell_def list_all_length)
qed

lemma cell_setCell:
  assumes "wf_board b" "0 \<le> r" "r < 8" "0 \<le> c" "c < 8" "0 \<le> r'" "0 \<le> c'"
  shows "cell (setCell b r c v) r' c' = (if r' = r \<and> c' = c then v else cell b r' c')"
proof -
  have len: "nat r < length b" "nat c < length (b ! nat r)"
    using assms wf_board_row_length[of b r] by (simp_all add: wf_board_def)
  have eqs: "nat r' = nat r \<longleftrightarrow> r' = r" "nat c' = nat c \<longleftrightarrow> c' = c"
    using assms by auto
  show ?thesis
    using len eqs by (auto simp: cell_def setCell_def nth_list_update)
qed

lemma getPieceAt_setCell:
  assumes "wf_board b" "0 \<le> r" "r < 8" "0 \<le> c" "c < 8"
  shows "getPieceAt (setCell b r c v) q =
           (if row q = r \<and> col q = c then v else getPieceAt b q)"
  using assms by (auto simp: getPieceAt_def isValidPosition_def cell_setCell)

lemma getPieceAt_valid: "getPieceAt b pos = Some p \<Longrightarrow> isValidPosition pos"
  by (auto simp: getPieceAt_def split: if_splits)

lemma position_eq_iff: "(a::Position) = b \<longleftrightarrow> row a = row b \<and> col a = col b"
  by (cases a, cases b) auto

lemma same_position:
  "list_ex (\<lambda>m. row m = row to \<and> col m = col to) xs \<longleftrightarrow> (to::Position) \<in> set xs"
proof -
  have "(row m = row to \<and> col m = col to) = (m = to)" for m
    by (simp add: position_eq_iff)
  then show ?thesis
    by (auto simp: list_ex_iff)
qed

lemma allSquares_valid: "s \<in> set allSquares \<longleftrightarrow> isValidPosition s"
proof -
  have "s \<in> set allSquares \<longleftrightarrow> (\<exists>r\<in>{0..7}. \<exists>c\<in>{0..7}. s = \<lparr>row = r, col = c\<rparr>)"
    by (auto simp: allSquares_def)
  also have "\<dots> \<longleftrightarrow> isValidPosition s"
    by (cases s) (auto simp: isValidPosition_def)
  finally show ?thesis .
qed

section \<open>Properties of promotion\<close>

lemma promotePawn_piece:
  assumes "wf_board (board gs)" "getPieceAt (board gs) pos = Some p"
  shows "promotePawn gs pos t =
           Inr (gs\<lparr>board := setCell (board gs) (row pos) (col pos) (Some (p\<lparr>ptype := t\<rparr>))\<rparr>)"
  using assms by (auto simp: promotePawn_def getPieceAt_def isValidPosition_def split: if_splits)

lemma promotePawn_empty:
  assumes "0 \<le> row pos" "row pos < 8" "getPieceAt (board gs) pos = None"
  shows "promotePawn gs pos t = Inr gs"
  using assms by (auto simp: promotePawn_def getPieceAt_def isValidPosition_def split: if_splits)

lemma promotePawn_off_board: "row pos < 0 \<or> 8 \<le> row pos \<Longrightarrow> promotePawn gs pos t = Inl TypeError"
  by (auto simp: promotePawn_def)

lemma promotePawn_board:
  assumes "wf_board (board gs)" "getPieceAt (board gs) pos = Some p"
  shows "\<exists>s'. promotePawn gs pos t = Inr s' \<and>
           getPieceAt (board s') pos = Some \<lparr>ptype = t, color = color p\<rparr> \<and>
           (\<forall>q. q \<noteq> pos \<longrightarrow> getPieceAt (board s') q = getPieceAt (board gs) q) \<and>
           wf_board (board s') \<and> s'\<lparr>board := board gs\<rparr> = gs"
proof -
  have valid: "isValidPosition pos"
    using assms(2) by (rule getPieceAt_valid)
  let ?s = "gs\<lparr>board := setCell (board gs) (row pos) (col pos) (Some (p\<lparr>ptype := t\<rparr>))\<rparr>"
  have run: "promotePawn gs pos t = Inr ?s"
    using promotePawn_piece[OF assms] .
  have at: "getPieceAt (board ?s) pos = Some \<lparr>ptype = t, color = color p\<rparr>"
    using valid assms(1) by (simp add: getPieceAt_setCell isValidPosition_def)
  have others: "\<forall>q. q \<noteq> pos \<longrightarrow> getPieceAt (board ?s) q = getPieceAt (board gs) q"
    using valid assms(1) by (auto simp: getPieceAt_setCell isValidPosition_def)
  have wf: "wf_board (board ?s)"
    using assms(1) by (simp add: wf_board_setCell)
  show ?thesis
    using run at others wf by simp
qed

text \<open>
  C9. On a board of the game, when \<open>shouldPromotePawn\<close> holds at \<open>pos\<close> (a pawn on the
  farthest rank for its colour), \<open>promotePawn\<close> returns a state in which the piece at
  \<open>pos\<close> has the new type and its old colour, every other square holds what it held, and
  every field other than the board is the one of the input.
\<close>

theorem promotePawn_frame:
  assumes "wf_board (board gs)" and "shouldPromotePawn (board gs) pos"
  shows "\<exists>p s'. getPieceAt (board gs) pos = Some p \<and> ptype p = pawn \<and>
           promotePawn gs pos newType = Inr s' \<and>
           getPieceAt (board s') pos = Some \<lparr>ptype = newType, color = color p\<rparr> \<and>
           (\<forall>q. q \<noteq> pos \<longrightarrow> getPieceAt (board s') q = getPieceAt (board gs) q) \<and>
           s'\<lparr>board := board gs\<rparr> = gs \<and>
           currentPlayer s' = currentPlayer gs \<and> moveHistory s' = moveHistory gs \<and>
           capturedPieces s' = capturedPieces gs \<and> isCheck s' = isCheck gs \<and>
           isCheckmate s' = isCheckmate gs \<and> isStalemate s' = isStalemate gs \<and>
           enPassantTarget s' = enPassantTarget gs \<and> castlingRights s' = castlingRights gs \<and>
           lastMove s' = lastMove gs \<and> selectedSquare s' = selectedSquare gs \<and>
           legalMoves s' = legalMoves gs"
proof -
  from assms(2) obtain p where p: "getPieceAt (board gs) pos = Some p" "ptype p = pawn"
    by (auto simp: shouldPromotePawn_def split: option.splits if_splits)
  from promotePawn_board[OF assms(1) p(1), of newType] obtain s' where s':
    "promotePawn gs pos newType = Inr s'"
    "getPieceAt (board s') pos = Some \<lparr>ptype = newType, color = color p\<rparr>"
    "\<forall>q. q \<noteq> pos \<longrightarrow> getPieceAt (board s') q = getPieceAt (board gs) q"
    "s'\<lparr>board := board gs\<rparr> = gs"
    by blast
  have fields:
    "currentPlayer s' = currentPlayer gs" "moveHistory s' = moveHistory gs"
    "capturedPieces s' = capturedPieces gs" "isCheck s' = isCheck gs"
    "isCheckmate s' = isCheckmate gs" "isStalemate s' = isStalemate gs"
    "enPassantTarget s' = enPassantTarget gs" "castlingRights s' = castlingRights gs"
    "lastMove s' = lastMove gs" "selectedSquare s' = selectedSquare gs"
    "legalMoves s' = legalMoves gs"
    using arg_cong[OF s'(4), of currentPlayer] arg_cong[OF s'(4), of moveHistory]
      arg_cong[OF s'(4), of capturedPieces] arg_cong[OF s'(4), of isCheck]
      arg_cong[OF s'(4), of isCheckmate] arg_cong[OF s'(4), of isStalemate]
      arg_cong[OF s'(4), of enPassantTarget] arg_cong[OF s'(4), of castlingRights]
      arg_cong[OF s'(4), of lastMove] arg_cong[OF s'(4), of selectedSquare]
      arg_cong[OF s'(4), of legalMoves]
    by simp_all
  show ?thesis
    using p s' fields by blast
qed

theorem promotePawn_frame_witness:
  "wf_board (board promotionState) \<and> shouldPromotePawn (board promotionState) (sq 0 0) \<and>
   (\<exists>s'. promotePawn promotionState (sq 0 0) queen = Inr s' \<and>
         getPieceAt (board s') (sq 0 0) = Some \<lparr>ptype = queen, color = white\<rparr> \<and>
         getPieceAt (board s') (sq 7 4) = Some \<lparr>ptype = king, color = white\<rparr> \<and>
         currentPlayer s' = black \<and> moveHistory s' = [])"
proof -
  have wf: "wf_board (board promotionState)" by code_simp
  have sp: "shouldPromotePawn (board promotionState) (sq 0 0)" by code_simp
  have at: "getPieceAt (board promotionState) (sq 0 0) = Some \<lparr>ptype = pawn, color = white\<rparr>"
    by code_simp
  have k: "getPieceAt (board promotionState) (sq 7 4) = Some \<lparr>ptype = king, color = white\<rparr>"
    by code_simp
  have cp: "currentPlayer promotionState = black" "moveHistory promotionState = []"
    by (simp_all add: promotionState_def stateOf_def)
  from promotePawn_frame[OF wf sp, of queen] obtain p s' where s':
    "getPieceAt (board promotionState) (sq 0 0) = Some p"
    "promotePawn promotionState (sq 0 0) queen = Inr s'"
    "getPieceAt (board s') (sq 0 0) = Some \<lparr>ptype = queen, color = color p\<rparr>"
    "\<forall>q. q \<noteq> sq 0 0 \<longrightarrow> getPieceAt (board s') q = getPieceAt (board promotionState) q"
    "currentPlayer s' = currentPlayer promotionState"
    "moveHistory s' = moveHistory promotionState"
    by blast
  have "p = \<lparr>ptype = pawn, color = white\<rparr>" using s'(1) at by simp
  then have "color p = white" by simp
  moreover have "getPieceAt (board s') (sq 7 4) = getPieceAt (board promotionState) (sq 7 4)"
    using s'(4) by simp
  ultimately show ?thesis
    using wf sp s' k cp by auto
qed

text \<open>
  C10. \<open>promotePawn\<close> checks neither the piece nor the new type: on a board of the game,
  whatever piece stands on \<open>pos\<close> gets the type \<open>t\<close>, for each of the six types; a
  promotion to \<open>king\<close> turns a board with one white king into a board with two; and on
  a square of the board that holds no piece the call returns the input state. (Positions
  are squares of the grid, rows 0 to 7: a row outside it makes the call throw, see
  \<open>promotePawn_off_board\<close>.)
\<close>

theorem promotePawn_no_validation:
  "(\<forall>gs pos p t. wf_board (board gs) \<and> getPieceAt (board gs) pos = Some p \<longrightarrow>
      (\<exists>s'. promotePawn gs pos t = Inr s' \<and>
            getPieceAt (board s') pos = Some \<lparr>ptype = t, color = color p\<rparr>)) \<and>
   (\<exists>gs pos s'. wf_board (board gs) \<and> countKings (board gs) white = 1 \<and>
      promotePawn gs pos king = Inr s' \<and> countKings (board s') white = 2) \<and>
   (\<forall>gs pos t. 0 \<le> row pos \<and> row pos < 8 \<and> getPieceAt (board gs) pos = None \<longrightarrow>
      promotePawn gs pos t = Inr gs)"
proof (intro conjI allI impI)
  fix gs :: GameState and pos :: Position and p :: Piece and t :: PieceType
  assume "wf_board (board gs) \<and> getPieceAt (board gs) pos = Some p"
  then show "\<exists>s'. promotePawn gs pos t = Inr s' \<and>
            getPieceAt (board s') pos = Some \<lparr>ptype = t, color = color p\<rparr>"
    using promotePawn_board[of gs pos p t] by blast
next
  let ?s = "promotionState\<lparr>board := setCell (board promotionState) 0 0
              (Some \<lparr>ptype = king, color = white\<rparr>)\<rparr>"
  have wf: "wf_board (board promotionState)" by code_simp
  have one: "countKings (board promotionState) white = 1" by code_simp
  have at: "getPieceAt (board promotionState) (sq 0 0) = Some \<lparr>ptype = pawn, color = white\<rparr>"
    by code_simp
  have run: "promotePawn promotionState (sq 0 0) king = Inr ?s"
    using promotePawn_piece[OF wf at, of king] by simp
  have two: "countKings (board ?s) white = 2" by code_simp
  show "\<exists>gs pos s'. wf_board (board gs) \<and> countKings (board gs) white = 1 \<and>
      promotePawn gs pos king = Inr s' \<and> countKings (board s') white = 2"
    using wf one run two by blast
next
  fix gs :: GameState and pos :: Position and t :: PieceType
  assume "0 \<le> row pos \<and> row pos < 8 \<and> getPieceAt (board gs) pos = None"
  then show "promotePawn gs pos t = Inr gs"
    by (simp add: promotePawn_empty)
qed

theorem promotePawn_no_validation_witness:
  "wf_board (board promotionState) \<and>
   getPieceAt (board promotionState) (sq 0 4) = Some \<lparr>ptype = king, color = black\<rparr> \<and>
   (\<exists>s'. promotePawn promotionState (sq 0 4) pawn = Inr s' \<and>
         getPieceAt (board s') (sq 0 4) = Some \<lparr>ptype = pawn, color = black\<rparr>) \<and>
   getPieceAt (board promotionState) (sq 3 3) = None \<and>
   promotePawn promotionState (sq 3 3) queen = Inr promotionState"
proof -
  have wf: "wf_board (board promotionState)" by code_simp
  have k: "getPieceAt (board promotionState) (sq 0 4) = Some \<lparr>ptype = king, color = black\<rparr>"
    by code_simp
  have e: "getPieceAt (board promotionState) (sq 3 3) = None" by code_simp
  have a: "\<exists>s'. promotePawn promotionState (sq 0 4) pawn = Inr s' \<and>
         getPieceAt (board s') (sq 0 4) = Some \<lparr>ptype = pawn, color = black\<rparr>"
    using promotePawn_no_validation wf k by fastforce
  have b: "promotePawn promotionState (sq 3 3) queen = Inr promotionState"
    using promotePawn_no_validation e by simp
  show ?thesis using wf k e a b by blast
qed

section \<open>Acceptance and rejection of a move\<close>

lemma makeMove_Some:
  assumes "makeMove gs from to = Some s'"
  shows "\<exists>p. getPieceAt (board gs) from = Some p \<and> color p = currentPlayer gs \<and>
           to \<in> set (getLegalMoves (board gs) from (enPassantTarget gs) (castlingRights gs)) \<and>
           board s' = moveBoard (board gs) p from to (enPassantTarget gs) \<and>
           currentPlayer s' = opponent (color p) \<and>
           enPassantTarget s' =
             (if ptype p = pawn \<and> \<bar>row to - row from\<bar> = 2
              then Some \<lparr>row = (row from + row to) div 2, col = col from\<rparr> else None) \<and>
           castlingRights s' = moveCastlingRights (castlingRights gs) p from \<and>
           capturedPieces s' =
             moveCaptured (capturedPieces gs) (board gs) p to (enPassantTarget gs) \<and>
           isCheck s' = isInCheck (board s') (currentPlayer s') \<and>
           isCheckmate s' =
             (isCheck s' \<and> \<not> checkHasLegalMoves (board s') (currentPlayer s')
                                (enPassantTarget s') (castlingRights s')) \<and>
           isStalemate s' =
             (\<not> isCheck s' \<and> \<not> checkHasLegalMoves (board s') (currentPlayer s')
                                  (enPassantTarget s') (castlingRights s'))"
proof -
  from assms obtain p where p: "getPieceAt (board gs) from = Some p"
    by (auto simp: makeMove_def split: option.splits)
  from assms p have c: "color p = currentPlayer gs"
    by (auto simp: makeMove_def split: if_splits)
  from assms p c have l: "to \<in> set (getLegalMoves (board gs) from (enPassantTarget gs) (castlingRights gs))"
    by (auto simp: makeMove_def same_position split: if_splits)
  have l': "list_ex (\<lambda>move. row move = row to \<and> col move = col to)
              (getLegalMoves (board gs) from (enPassantTarget gs) (castlingRights gs))"
    using l by (simp only: same_position)
  have s': "s' = the (makeMove gs from to)" using assms by simp
  show ?thesis
    using p c l unfolding s' makeMove_def
    by (simp add: l' Let_def opponent_def)
qed

lemma makeMove_None_iff:
  "makeMove gs from to = None \<longleftrightarrow>
     (getPieceAt (board gs) from = None \<or>
      (\<exists>p. getPieceAt (board gs) from = Some p \<and> color p \<noteq> currentPlayer gs) \<or>
      to \<notin> set (getLegalMoves (board gs) from (enPassantTarget gs) (castlingRights gs)))"
proof (cases "getPieceAt (board gs) from")
  case None
  then show ?thesis by (simp add: makeMove_def)
next
  case (Some p)
  show ?thesis
  proof (cases "color p = currentPlayer gs")
    case False
    with Some show ?thesis by (simp add: makeMove_def)
  next
    case True
    show ?thesis
    proof (cases "to \<in> set (getLegalMoves (board gs) from (enPassantTarget gs)
                              (castlingRights gs))")
      case False
      then have "\<not> list_ex (\<lambda>move. row move = row to \<and> col move = col to)
              (getLegalMoves (board gs) from (enPassantTarget gs) (castlingRights gs))"
        by (simp only: same_position not_False_eq_True)
      with Some True False show ?thesis by (simp add: makeMove_def)
    next
      case l: True
      then have "list_ex (\<lambda>move. row move = row to \<and> col move = col to)
              (getLegalMoves (board gs) from (enPassantTarget gs) (castlingRights gs))"
        by (simp only: same_position)
      with Some True l show ?thesis by (simp add: makeMove_def Let_def)
    qed
  qed
qed

text \<open>
  C4. If the square \<open>from\<close> holds no piece, or a piece of the side that is not to move,
  or \<open>to\<close> is not among the legal moves of \<open>from\<close>, then \<open>makeMove\<close> returns null and the
  state passed to it is left as it was.
\<close>

theorem makeMove_rejects:
  assumes "getPieceAt (board gs) from = None \<or>
           (\<exists>p. getPieceAt (board gs) from = Some p \<and> color p \<noteq> currentPlayer gs) \<or>
           to \<notin> set (getLegalMoves (board gs) from (enPassantTarget gs) (castlingRights gs))"
  shows "makeMove gs from to = None \<and> makeMoveArgument gs from to = gs"
proof -
  have "makeMove gs from to = None"
    using assms by (simp only: makeMove_None_iff)
  then show ?thesis
    by (simp add: makeMoveArgument_def)
qed

theorem makeMove_rejects_witness:
  "getPieceAt (board initialState) (sq 4 4) = None \<and>
   makeMove initialState (sq 4 4) (sq 3 4) = None \<and>
   makeMoveArgument initialState (sq 4 4) (sq 3 4) = initialState \<and>
   getPieceAt (board initialState) (sq 1 4) = Some \<lparr>ptype = pawn, color = black\<rparr> \<and>
   currentPlayer initialState = white \<and>
   makeMove initialState (sq 1 4) (sq 2 4) = None \<and>
   makeMoveArgument initialState (sq 1 4) (sq 2 4) = initialState \<and>
   sq 3 4 \<notin> set (getLegalMoves (board initialState) (sq 6 4)
                    (enPassantTarget initialState) (castlingRights initialState)) \<and>
   makeMove initialState (sq 6 4) (sq 3 4) = None \<and>
   makeMoveArgument initialState (sq 6 4) (sq 3 4) = initialState"
proof -
  have e: "getPieceAt (board initialState) (sq 4 4) = None" by code_simp
  have p: "getPieceAt (board initialState) (sq 1 4) = Some \<lparr>ptype = pawn, color = black\<rparr>"
    by code_simp
  have w: "currentPlayer initialState = white"
    by (simp add: initialState_def stateOf_def)
  have l: "sq 3 4 \<notin> set (getLegalMoves (board initialState) (sq 6 4)
                    (enPassantTarget initialState) (castlingRights initialState))"
    by code_simp
  have p': "\<exists>p. getPieceAt (board initialState) (sq 1 4) = Some p \<and>
              color p \<noteq> currentPlayer initialState"
    using p w by simp
  show ?thesis
    using e p w l makeMove_rejects[of initialState "sq 4 4" "sq 3 4"]
      makeMove_rejects[of initialState "sq 1 4" "sq 2 4"] p'
      makeMove_rejects[of initialState "sq 6 4" "sq 3 4"]
    by blast
qed

section \<open>Shape of the generated moves\<close>

lemma getPawnMoves_shape:
  assumes "to \<in> set (getPawnMoves b from clr ep)"
  shows "(\<bar>row to - row from\<bar> = 1 \<and> \<bar>col to - col from\<bar> \<le> 1) \<or>
         (\<bar>row to - row from\<bar> = 2 \<and> col to = col from \<and>
          row from = (if clr = white then 6 else 1))"
  using assms
  by (auto simp: getPawnMoves_def Let_def split: if_splits option.splits)

lemma getLegalMoves_cases:
  assumes "to \<in> set (getLegalMoves b from ep rights)"
  shows "\<exists>p. getPieceAt b from = Some p \<and>
           \<not> isInCheck (testBoard b p from to ep) (color p) \<and>
           (to \<in> set (getPseudoLegalMoves b from ep) \<or>
            (ptype p = king \<and> row to = (if color p = white then 7 else 0) \<and>
             ((col to = 6 \<and> canCastle b (color p) kingside \<and>
               (if color p = white then whiteKingSide rights else blackKingSide rights)) \<or>
              (col to = 2 \<and> canCastle b (color p) queenside \<and>
               (if color p = white then whiteQueenSide rights else blackQueenSide rights)))))"
proof -
  from assms obtain p where p: "getPieceAt b from = Some p"
    by (cases "getPieceAt b from") (auto simp: getLegalMoves_def)
  have chk: "\<not> isInCheck (testBoard b p from to ep) (color p)"
    using assms p by (auto simp: getLegalMoves_def Let_def)
  have "to \<in> set (getPseudoLegalMoves b from ep) \<or>
        (ptype p = king \<and> row to = (if color p = white then 7 else 0) \<and>
         ((col to = 6 \<and> canCastle b (color p) kingside \<and>
           (if color p = white then whiteKingSide rights else blackKingSide rights)) \<or>
          (col to = 2 \<and> canCastle b (color p) queenside \<and>
           (if color p = white then whiteQueenSide rights else blackQueenSide rights))))"
    using assms p
    by (cases "color p") (auto simp: getLegalMoves_def Let_def split: if_splits)
  with p chk show ?thesis by blast
qed

text \<open>
  C5. After a successful \<open>makeMove\<close> the en-passant target of the new state is the square
  midway between \<open>from\<close> and \<open>to\<close> exactly when a pawn has advanced two rows (it then
  stays on its column), and null after every other move, whatever the target was before.
\<close>

theorem enPassantTarget_after_move:
  assumes "makeMove gs from to = Some s'"
  shows "\<exists>p. getPieceAt (board gs) from = Some p \<and>
           (ptype p = pawn \<and> \<bar>row to - row from\<bar> = 2 \<longrightarrow>
              col to = col from \<and>
              2 * ((row from + row to) div 2) = row from + row to \<and>
              enPassantTarget s' = Some \<lparr>row = (row from + row to) div 2, col = col from\<rparr>) \<and>
           (\<not> (ptype p = pawn \<and> \<bar>row to - row from\<bar> = 2) \<longrightarrow> enPassantTarget s' = None)"
proof -
  from makeMove_Some[OF assms] obtain p where p:
    "getPieceAt (board gs) from = Some p"
    "to \<in> set (getLegalMoves (board gs) from (enPassantTarget gs) (castlingRights gs))"
    "enPassantTarget s' =
       (if ptype p = pawn \<and> \<bar>row to - row from\<bar> = 2
        then Some \<lparr>row = (row from + row to) div 2, col = col from\<rparr> else None)"
    by blast
  have "col to = col from \<and> 2 * ((row from + row to) div 2) = row from + row to"
    if pw: "ptype p = pawn" and two: "\<bar>row to - row from\<bar> = 2"
  proof -
    from getLegalMoves_cases[OF p(2)] p(1) pw
    have "to \<in> set (getPawnMoves (board gs) from (color p) (enPassantTarget gs))"
      by (auto simp: getPseudoLegalMoves_def)
    from getPawnMoves_shape[OF this] two have "col to = col from" by auto
    moreover from two have "2 * ((row from + row to) div 2) = row from + row to" by presburger
    ultimately show ?thesis by simp
  qed
  with p(1) p(3) show ?thesis by auto
qed

theorem enPassantTarget_after_move_witness:
  "makeMove initialState (sq 6 4) (sq 4 4) = Some afterE4 \<and>
   getPieceAt (board initialState) (sq 6 4) = Some \<lparr>ptype = pawn, color = white\<rparr> \<and>
   enPassantTarget afterE4 = Some (sq 5 4)"
proof -
  have "makeMove initialState (sq 6 4) (sq 4 4) \<noteq> None" by code_simp
  then have m: "makeMove initialState (sq 6 4) (sq 4 4) = Some afterE4"
    by (auto simp: afterE4_def)
  have p: "getPieceAt (board initialState) (sq 6 4) = Some \<lparr>ptype = pawn, color = white\<rparr>"
    by code_simp
  from enPassantTarget_after_move[OF m] p
  have "enPassantTarget afterE4 = Some (sq 5 4)" by auto
  with m p show ?thesis by simp
qed

section \<open>Terminal states\<close>

lemma no_legal_moves:
  assumes "\<not> checkHasLegalMoves b clr ep rights" "getPieceAt b s = Some p" "color p = clr"
  shows "getLegalMoves b s ep rights = []"
proof -
  have v: "isValidPosition s" using assms(2) by (rule getPieceAt_valid)
  then have "s \<in> set allSquares" by (simp add: allSquares_valid)
  moreover have "cell b (row s) (col s) = Some p"
    using assms(2) v by (simp add: getPieceAt_def)
  ultimately show ?thesis
    using assms(1,3) by (auto simp: checkHasLegalMoves_def list_ex_iff)
qed

text \<open>
  C7. In every state that \<open>makeMove\<close> returns, the checkmate and stalemate flags are not
  both set; either flag means that no piece of the side now to move has a legal move;
  checkmate comes with the check flag set and stalemate with the check flag clear.
\<close>

theorem terminal_flags:
  assumes "makeMove gs from to = Some s'"
  shows "\<not> (isCheckmate s' \<and> isStalemate s') \<and>
         (isCheckmate s' \<longrightarrow> isCheck s') \<and>
         (isStalemate s' \<longrightarrow> \<not> isCheck s') \<and>
         (isCheckmate s' \<or> isStalemate s' \<longrightarrow>
            \<not> checkHasLegalMoves (board s') (currentPlayer s') (enPassantTarget s')
                (castlingRights s') \<and>
            (\<forall>s p. getPieceAt (board s') s = Some p \<and> color p = currentPlayer s' \<longrightarrow>
                   getLegalMoves (board s') s (enPassantTarget s') (castlingRights s') = []))"
proof -
  from makeMove_Some[OF assms] have flags:
    "isCheckmate s' =
       (isCheck s' \<and> \<not> checkHasLegalMoves (board s') (currentPlayer s')
                          (enPassantTarget s') (castlingRights s'))"
    "isStalemate s' =
       (\<not> isCheck s' \<and> \<not> checkHasLegalMoves (board s') (currentPlayer s')
                            (enPassantTarget s') (castlingRights s'))"
    by blast+
  have "getLegalMoves (board s') s (enPassantTarget s') (castlingRights s') = []"
    if "isCheckmate s' \<or> isStalemate s'" "getPieceAt (board s') s = Some p"
       "color p = currentPlayer s'" for s p
    using that flags no_legal_moves by blast
  then show ?thesis
    using flags by blast
qed

theorem terminal_flags_witness:
  "makeMove backRankState (sq 0 0) (sq 7 0) = Some backRankMate \<and>
   isCheckmate backRankMate \<and> isCheck backRankMate \<and> \<not> isStalemate backRankMate \<and>
   getPieceAt (board backRankMate) (sq 7 6) = Some \<lparr>ptype = king, color = white\<rparr> \<and>
   currentPlayer backRankMate = white \<and>
   getLegalMoves (board backRankMate) (sq 7 6) (enPassantTarget backRankMate)
     (castlingRights backRankMate) = []"
proof -
  have "makeMove backRankState (sq 0 0) (sq 7 0) \<noteq> None" by code_simp
  then have m: "makeMove backRankState (sq 0 0) (sq 7 0) = Some backRankMate"
    by (auto simp: backRankMate_def)
  have c: "isCheckmate backRankMate" by code_simp
  have k: "getPieceAt (board backRankMate) (sq 7 6) = Some \<lparr>ptype = king, color = white\<rparr>"
    by code_simp
  have w: "currentPlayer backRankMate = white" by code_simp
  from terminal_flags[OF m] c k w show ?thesis
    using m by auto
qed

section \<open>Leaves of the search\<close>

lemma minimax_leaf:
  assumes "depth = 0 \<or> isCheckmate gs \<or> isStalemate gs"
  shows "minimax gs depth alpha beta mx = leafResult gs mx"
  using assms by (cases depth) auto

text \<open>
  C3, as the code has it. At a leaf of the search (depth 0, or a checkmate or stalemate
  state) the score is -50000 in a maximizing frame and +50000 in a minimizing one for a
  checkmate state, 0 for a stalemate state, the static evaluation otherwise; and on top
  of that -50 (maximizing) or +50 (minimizing) whenever the check flag of the state is
  set, at terminal and non-terminal leaves alike. So a checkmate state that \<open>makeMove\<close>
  returned scores exactly -50050 or +50050, and a stalemate state that \<open>makeMove\<close>
  returned scores exactly 0.
\<close>

theorem minimax_leaf_score:
  "(depth = 0 \<or> isCheckmate gs \<or> isStalemate gs \<longrightarrow>
      minimax gs depth alpha beta mx =
        \<lparr>score = Finite
           ((if isCheckmate gs then (if mx then -50000 else 50000)
             else if isStalemate gs then 0
             else evaluateBoard (board gs))
            + (if isCheck gs then (if mx then -50 else 50) else 0)),
         move = None\<rparr>) \<and>
   (makeMove g0 from to = Some gs \<and> isCheckmate gs \<longrightarrow>
      score (minimax gs depth alpha beta mx) = Finite (if mx then -50050 else 50050)) \<and>
   (makeMove g0 from to = Some gs \<and> isStalemate gs \<longrightarrow>
      score (minimax gs depth alpha beta mx) = Finite 0)"
proof (intro conjI impI)
  assume "depth = 0 \<or> isCheckmate gs \<or> isStalemate gs"
  then show "minimax gs depth alpha beta mx =
        \<lparr>score = Finite
           ((if isCheckmate gs then (if mx then -50000 else 50000)
             else if isStalemate gs then 0
             else evaluateBoard (board gs))
            + (if isCheck gs then (if mx then -50 else 50) else 0)),
         move = None\<rparr>"
    by (simp add: minimax_leaf leafResult_def Let_def)
next
  assume a: "makeMove g0 from to = Some gs \<and> isCheckmate gs"
  then have "isCheck gs" using makeMove_Some[of g0 "from" "to" gs] by blast
  with a show "score (minimax gs depth alpha beta mx) = Finite (if mx then -50050 else 50050)"
    by (simp add: minimax_leaf leafResult_def Let_def)
next
  assume a: "makeMove g0 from to = Some gs \<and> isStalemate gs"
  then have "\<not> isCheck gs" "\<not> isCheckmate gs" using makeMove_Some[of g0 "from" "to" gs] by blast+
  with a show "score (minimax gs depth alpha beta mx) = Finite 0"
    by (simp add: minimax_leaf leafResult_def Let_def)
qed

theorem minimax_leaf_score_witness:
  "makeMove backRankState (sq 0 0) (sq 7 0) = Some backRankMate \<and> isCheckmate backRankMate \<and>
   score (minimax backRankMate 3 NegInfinity PosInfinity True) = Finite (-50050) \<and>
   minimax backRankMate 0 NegInfinity PosInfinity False = \<lparr>score = Finite 50050, move = None\<rparr>"
proof -
  have "makeMove backRankState (sq 0 0) (sq 7 0) \<noteq> None" by code_simp
  then have m: "makeMove backRankState (sq 0 0) (sq 7 0) = Some backRankMate"
    by (auto simp: backRankMate_def)
  have c: "isCheckmate backRankMate" "isCheck backRankMate" by code_simp+
  show ?thesis
    using m c minimax_leaf_score[of 3 backRankMate NegInfinity PosInfinity True backRankState "sq 0 0" "sq 7 0"]
      minimax_leaf_score[of 0 backRankMate NegInfinity PosInfinity False backRankState "sq 0 0" "sq 7 0"]
    by simp
qed

text \<open>
  The claim as stated gives a checkmate leaf exactly -50000 in a maximizing frame. The
  state after the mating move in \<open>backRankState\<close> is checkmate, so its check flag is
  set, and its leaf scores -50050.
\<close>

theorem checkmate_leaf_counterexample:
  "isCheckmate backRankMate \<and>
   score (minimax backRankMate 0 NegInfinity PosInfinity True) = Finite (-50050) \<and>
   score (minimax backRankMate 0 NegInfinity PosInfinity True) \<noteq> Finite (-50000)"
proof -
  have c: "isCheckmate backRankMate" "isCheck backRankMate" by code_simp+
  then show ?thesis
    by (simp add: leafResult_def Let_def)
qed

section \<open>Moves stay on the board\<close>

declare slide.simps [simp del]

lemma slide_valid: "s \<in> set (slide b clr r c dRow dCol) \<Longrightarrow> isValidPosition s"
proof (induction b clr r c dRow dCol rule: slide.induct)
  case (1 b clr r c dRow dCol)
  show ?case
  proof (cases "isValidPosition \<lparr>row = r, col = c\<rparr> \<and> (dRow \<noteq> 0 \<or> dCol \<noteq> 0)")
    case False
    with "1.prems" show ?thesis by (simp add: slide.simps[of b clr r c])
  next
    case True
    show ?thesis
    proof (cases "getPieceAt b \<lparr>row = r, col = c\<rparr>")
      case None
      with True "1.prems" "1.IH" show ?thesis
        by (auto simp: slide.simps[of b clr r c])
    next
      case (Some t)
      with True "1.prems" show ?thesis
        by (auto simp: slide.simps[of b clr r c] split: if_splits)
    qed
  qed
qed

lemma getSlidingMoves_valid:
  "s \<in> set (getSlidingMoves b from clr ds) \<Longrightarrow> isValidPosition s"
  by (auto simp: getSlidingMoves_def dest: slide_valid)

lemma offsetMoves_valid: "s \<in> set (offsetMoves b from clr offs) \<Longrightarrow> isValidPosition s"
  by (auto simp: offsetMoves_def Let_def split: if_splits option.splits)

lemma getPawnMoves_direction:
  assumes "to \<in> set (getPawnMoves b from clr ep)"
  shows "(row to = row from + (if clr = white then -1 else 1) \<and> isValidPosition to) \<or>
         (row to = row from + 2 * (if clr = white then -1 else 1) \<and> col to = col from \<and>
          row from = (if clr = white then 6 else 1) \<and>
          isValidPosition \<lparr>row = row from + (if clr = white then -1 else 1), col = col from\<rparr>)"
  using assms
  by (auto simp: getPawnMoves_def Let_def split: if_splits option.splits)

lemma getPawnMoves_valid:
  assumes "to \<in> set (getPawnMoves b from clr ep)"
  shows "isValidPosition to"
  using getPawnMoves_direction[OF assms]
  by (auto simp: isValidPosition_def split: if_splits)

lemma getPseudoLegalMoves_valid:
  assumes "to \<in> set (getPseudoLegalMoves b from ep)"
  shows "isValidPosition to"
proof -
  from assms obtain p where p: "getPieceAt b from = Some p"
    by (cases "getPieceAt b from") (auto simp: getPseudoLegalMoves_def)
  show ?thesis
    using assms p
    by (cases "ptype p")
       (auto simp: getPseudoLegalMoves_def getKnightMoves_def getKingMoves_def
          getBishopMoves_def getRookMoves_def getQueenMoves_def
        dest: getPawnMoves_valid offsetMoves_valid getSlidingMoves_valid)
qed

lemma getLegalMoves_valid:
  assumes "to \<in> set (getLegalMoves b from ep rights)"
  shows "isValidPosition to"
proof -
  from getLegalMoves_cases[OF assms] obtain p :: Piece where
    "to \<in> set (getPseudoLegalMoves b from ep) \<or>
     (row to = (if color p = white then 7 else 0) \<and> (col to = 6 \<or> col to = 2))"
    by blast
  then show ?thesis
    by (auto simp: isValidPosition_def dest: getPseudoLegalMoves_valid split: if_splits)
qed

section \<open>The board after a move\<close>

lemma board_eqI:
  assumes "wf_board a" "wf_board b"
    and "\<And>r c. 0 \<le> r \<Longrightarrow> r < 8 \<Longrightarrow> 0 \<le> c \<Longrightarrow> c < 8 \<Longrightarrow> cell a r c = cell b r c"
  shows "a = b"
proof (rule nth_equalityI)
  show "length a = length b" using assms(1,2) by (simp add: wf_board_def)
next
  fix i assume i: "i < length a"
  then have i8: "i < 8" using assms(1) by (simp add: wf_board_def)
  show "a ! i = b ! i"
  proof (rule nth_equalityI)
    show "length (a ! i) = length (b ! i)"
      using assms(1,2) i8 by (simp add: wf_board_def list_all_length)
  next
    fix j assume "j < length (a ! i)"
    then have j8: "j < 8" using assms(1) i8 by (simp add: wf_board_def list_all_length)
    from assms(3)[of "int i" "int j"] i8 j8 show "a ! i ! j = b ! i ! j"
      by (simp add: cell_def)
  qed
qed

text \<open>
  For a move that is not a king moving two columns, \<open>makeMove\<close> builds the very board the
  legality filter has tested.
\<close>

lemma moveBoard_testBoard:
  assumes wf: "wf_board b" and p: "getPieceAt b from = Some p"
    and l: "to \<in> set (getLegalMoves b from ep rights)"
    and nc: "\<not> (ptype p = king \<and> \<bar>col to - col from\<bar> = 2)"
  shows "moveBoard b p from to ep = testBoard b p from to ep"
proof -
  have vf: "isValidPosition from" using p by (rule getPieceAt_valid)
  have vt: "isValidPosition to" using l by (rule getLegalMoves_valid)
  have cf: "cell b (row from) (col from) = Some p"
    using p vf by (simp add: getPieceAt_def)
  show ?thesis
  proof (cases "ptype p = pawn \<and> (\<exists>e. ep = Some e \<and> row to = row e \<and> col to = col e)")
    case False
    then show ?thesis
      using nc cf by (auto simp: moveBoard_def testBoard_def Let_def split: option.splits)
  next
    case True
    then obtain e where e: "ep = Some e" "row to = row e" "col to = col e" and pw: "ptype p = pawn"
      by blast
    define cr where "cr = (if color p = white then row to + 1 else row to - 1)"
    from getLegalMoves_cases[OF l] p pw
    have "to \<in> set (getPawnMoves b from (color p) ep)"
      by (auto simp: getPseudoLegalMoves_def)
    from getPawnMoves_direction[OF this] vf vt
    have crv: "0 \<le> cr" "cr < 8" "cr \<noteq> row to"
      by (auto simp: cr_def isValidPosition_def split: if_splits)
    have lhs: "moveBoard b p from to ep =
        setCell (setCell (setCell b cr (col to) None) (row to) (col to) (Some p))
          (row from) (col from) None"
      using e pw by (simp add: moveBoard_def Let_def cr_def)
    have rhs: "testBoard b p from to ep =
        setCell (setCell (setCell b (row to) (col to) (Some p)) (row from) (col from) None)
          cr (col to) None"
      using e pw cf by (simp add: testBoard_def Let_def cr_def)
    show ?thesis
      unfolding lhs rhs
    proof (rule board_eqI)
      show "wf_board (setCell (setCell (setCell b cr (col to) None) (row to) (col to) (Some p))
          (row from) (col from) None)"
        using wf by (intro wf_board_setCell)
      show "wf_board (setCell (setCell (setCell b (row to) (col to) (Some p)) (row from) (col from) None)
          cr (col to) None)"
        using wf by (intro wf_board_setCell)
    next
      fix r c :: int
      assume rc: "0 \<le> r" "r < 8" "0 \<le> c" "c < 8"
      show "cell (setCell (setCell (setCell b cr (col to) None) (row to) (col to) (Some p))
              (row from) (col from) None) r c =
            cell (setCell (setCell (setCell b (row to) (col to) (Some p)) (row from) (col from) None)
              cr (col to) None) r c"
        using wf vf vt crv rc
        by (simp add: cell_setCell wf_board_setCell isValidPosition_def)
    qed
  qed
qed

section \<open>Castling\<close>

lemma offsetMoves_offset:
  assumes "to \<in> set (offsetMoves b from clr offs)"
  shows "\<exists>d\<in>set offs. row to = row from + fst d \<and> col to = col from + snd d"
  using assms
proof (induction offs)
  case Nil
  then show ?case by (simp add: offsetMoves_def)
next
  case (Cons d ds)
  have split: "offsetMoves b from clr (d # ds) =
      offsetMoves b from clr [d] @ offsetMoves b from clr ds"
    by (simp add: offsetMoves_def)
  show ?case
  proof (cases "to \<in> set (offsetMoves b from clr ds)")
    case True
    with Cons.IH show ?thesis by auto
  next
    case False
    with Cons.prems split have "to \<in> set (offsetMoves b from clr [d])" by simp
    then have "row to = row from + fst d \<and> col to = col from + snd d"
      by (cases d) (simp add: offsetMoves_def Let_def split: if_splits option.splits)
    then show ?thesis by simp
  qed
qed

lemma getKingMoves_step:
  assumes "to \<in> set (getKingMoves b from clr)"
  shows "\<bar>col to - col from\<bar> \<le> 1 \<and> \<bar>row to - row from\<bar> \<le> 1"
proof -
  let ?offs = "[(-1, -1), (-1, 0), (-1, 1), (0, -1), (0, 1), (1, -1), (1, 0), (1, 1)] :: (int \<times> int) list"
  from offsetMoves_offset[OF assms[unfolded getKingMoves_def]]
  obtain d where d: "d \<in> set ?offs"
    and rc: "row to = row from + fst d" "col to = col from + snd d"
    by blast
  have "\<forall>d\<in>set ?offs. \<bar>fst d\<bar> \<le> 1 \<and> \<bar>snd d\<bar> \<le> (1::int)"
    by simp
  with d have "\<bar>fst d\<bar> \<le> 1 \<and> \<bar>snd d\<bar> \<le> 1"
    by blast
  with rc show ?thesis by simp
qed

lemma canCastle_kingside:
  "canCastle b clr kingside \<longleftrightarrow>
     \<not> isInCheck b clr \<and> cell b (homeRow clr) 5 = None \<and> cell b (homeRow clr) 6 = None \<and>
     \<not> isInCheck (setCell (setCell b (homeRow clr) 5 (cell b (homeRow clr) 4))
                    (homeRow clr) 4 None) clr \<and>
     \<not> isSquareUnderAttack b \<lparr>row = homeRow clr, col = 6\<rparr> (opponent clr)"
proof -
  have r: "(if clr = white then 7 else 0) = homeRow clr" by (simp add: homeRow_def)
  show ?thesis
    unfolding canCastle_def Let_def r by auto
qed

lemma canCastle_queenside:
  "canCastle b clr queenside \<longleftrightarrow>
     \<not> isInCheck b clr \<and> cell b (homeRow clr) 1 = None \<and> cell b (homeRow clr) 2 = None \<and>
     cell b (homeRow clr) 3 = None \<and>
     \<not> isInCheck (setCell (setCell b (homeRow clr) 3 (cell b (homeRow clr) 4))
                    (homeRow clr) 4 None) clr \<and>
     \<not> isSquareUnderAttack b \<lparr>row = homeRow clr, col = 2\<rparr> (opponent clr)"
proof -
  have r: "(if clr = white then 7 else 0) = homeRow clr" by (simp add: homeRow_def)
  show ?thesis
    unfolding canCastle_def Let_def r by auto
qed

text \<open>
  C6. A legal destination of a king that is not one of its ordinary one-square steps (as
  is every move of two columns, and so every move from the king's home square to column
  6 or 2) is a castling destination: it lies on the home rank, in column 6 or 2, and then
  the flag of that colour and wing is set, the squares between king and rook are empty,
  the king is not in check, the king would not be in check on the square it passes
  through, the destination is not attacked by the opponent, and the king is not in check
  on the destination. In particular castling is never legal while the king is in check.
\<close>

theorem castling_conditions:
  assumes "getPieceAt b from = Some p" and "ptype p = king"
    and "to \<in> set (getLegalMoves b from ep rights)"
    and "to \<notin> set (getKingMoves b from (color p))"
  shows "row to = homeRow (color p) \<and>
         \<not> isInCheck b (color p) \<and>
         \<not> isInCheck (testBoard b p from to ep) (color p) \<and>
         ((col to = 6 \<and> castlingFlag rights (color p) kingside \<and>
           cell b (homeRow (color p)) 5 = None \<and> cell b (homeRow (color p)) 6 = None \<and>
           \<not> isInCheck (setCell (setCell b (homeRow (color p)) 5 (cell b (homeRow (color p)) 4))
                          (homeRow (color p)) 4 None) (color p) \<and>
           \<not> isSquareUnderAttack b \<lparr>row = homeRow (color p), col = 6\<rparr> (opponent (color p))) \<or>
          (col to = 2 \<and> castlingFlag rights (color p) queenside \<and>
           cell b (homeRow (color p)) 1 = None \<and> cell b (homeRow (color p)) 2 = None \<and>
           cell b (homeRow (color p)) 3 = None \<and>
           \<not> isInCheck (setCell (setCell b (homeRow (color p)) 3 (cell b (homeRow (color p)) 4))
                          (homeRow (color p)) 4 None) (color p) \<and>
           \<not> isSquareUnderAttack b \<lparr>row = homeRow (color p), col = 2\<rparr> (opponent (color p))))"
proof -
  have ps: "getPseudoLegalMoves b from ep = getKingMoves b from (color p)"
    using assms(1,2) by (simp add: getPseudoLegalMoves_def)
  have r7: "(if color p = white then 7 else 0) = homeRow (color p)"
    by (simp add: homeRow_def)
  have fk: "(if color p = white then whiteKingSide rights else blackKingSide rights) =
              castlingFlag rights (color p) kingside"
    by (simp add: castlingFlag_def)
  have fq: "(if color p = white then whiteQueenSide rights else blackQueenSide rights) =
              castlingFlag rights (color p) queenside"
    by (simp add: castlingFlag_def)
  from getLegalMoves_cases[OF assms(3)] obtain p' where p':
    "getPieceAt b from = Some p'"
    "\<not> isInCheck (testBoard b p' from to ep) (color p')"
    "to \<in> set (getPseudoLegalMoves b from ep) \<or>
     (ptype p' = king \<and> row to = (if color p' = white then 7 else 0) \<and>
      ((col to = 6 \<and> canCastle b (color p') kingside \<and>
        (if color p' = white then whiteKingSide rights else blackKingSide rights)) \<or>
       (col to = 2 \<and> canCastle b (color p') queenside \<and>
        (if color p' = white then whiteQueenSide rights else blackQueenSide rights))))"
    by blast
  have pp: "p' = p" using p'(1) assms(1) by simp
  have chk: "\<not> isInCheck (testBoard b p from to ep) (color p)"
    using p'(2) pp by simp
  have np: "to \<notin> set (getPseudoLegalMoves b from ep)"
    using assms(4) ps by simp
  from p'(3) np have r: "row to = homeRow (color p)"
    and c: "(col to = 6 \<and> canCastle b (color p) kingside \<and>
             castlingFlag rights (color p) kingside) \<or>
            (col to = 2 \<and> canCastle b (color p) queenside \<and>
             castlingFlag rights (color p) queenside)"
    unfolding pp r7 fk fq by blast+
  from c show ?thesis
  proof
    assume k: "col to = 6 \<and> canCastle b (color p) kingside \<and>
               castlingFlag rights (color p) kingside"
    then show ?thesis
      using chk r canCastle_kingside[of b "color p"] by blast
  next
    assume q: "col to = 2 \<and> canCastle b (color p) queenside \<and>
               castlingFlag rights (color p) queenside"
    then show ?thesis
      using chk r canCastle_queenside[of b "color p"] by blast
  qed
qed

theorem castling_conditions_witness:
  "getPieceAt (board castleState) (sq 7 4) = Some \<lparr>ptype = king, color = white\<rparr> \<and>
   sq 7 6 \<in> set (getLegalMoves (board castleState) (sq 7 4) None (castlingRights castleState)) \<and>
   sq 7 6 \<notin> set (getKingMoves (board castleState) (sq 7 4) white) \<and>
   castlingFlag (castlingRights castleState) white kingside \<and>
   cell (board castleState) 7 5 = None \<and> cell (board castleState) 7 6 = None \<and>
   \<not> isInCheck (board castleState) white \<and>
   \<not> isSquareUnderAttack (board castleState) (sq 7 6) black"
proof -
  have p: "getPieceAt (board castleState) (sq 7 4) = Some \<lparr>ptype = king, color = white\<rparr>"
    by code_simp
  have k: "ptype \<lparr>ptype = king, color = white\<rparr> = king" by simp
  have l: "sq 7 6 \<in> set (getLegalMoves (board castleState) (sq 7 4) None (castlingRights castleState))"
    by code_simp
  have n: "sq 7 6 \<notin> set (getKingMoves (board castleState) (sq 7 4) (color \<lparr>ptype = king, color = white\<rparr>))"
    by code_simp
  from castling_conditions[OF p k l n] show ?thesis
    using p l n by (simp add: homeRow_def opponent_def)
qed

section \<open>Castling rights\<close>

lemma castlingRights_monotone:
  assumes "makeMove gs from to = Some s'"
  shows "(whiteKingSide (castlingRights s') \<longrightarrow> whiteKingSide (castlingRights gs)) \<and>
         (whiteQueenSide (castlingRights s') \<longrightarrow> whiteQueenSide (castlingRights gs)) \<and>
         (blackKingSide (castlingRights s') \<longrightarrow> blackKingSide (castlingRights gs)) \<and>
         (blackQueenSide (castlingRights s') \<longrightarrow> blackQueenSide (castlingRights gs))"
  using makeMove_Some[OF assms]
  by (auto simp: moveCastlingRights_def Let_def split: if_splits)

lemma castlingRights_king_moved:
  assumes "makeMove gs from to = Some s'" "getPieceAt (board gs) from = Some p" "ptype p = king"
  shows "\<not> castlingFlag (castlingRights s') (color p) side"
  using makeMove_Some[OF assms(1)] assms(2,3)
  by (cases "color p") (auto simp: moveCastlingRights_def castlingFlag_def Let_def)

lemma castlingRights_rook_moved:
  assumes "makeMove gs from to = Some s'" "getPieceAt (board gs) from = Some p" "ptype p = rook"
    and "row from = homeRow (color p)"
    and "col from = (if side = kingside then 7 else 0)"
  shows "\<not> castlingFlag (castlingRights s') (color p) side"
  using makeMove_Some[OF assms(1)] assms(2-)
  by (cases "color p"; cases side)
     (auto simp: moveCastlingRights_def castlingFlag_def homeRow_def Let_def)

text \<open>
  C2 at \<open>rookCaptureState\<close>: the black king takes the rook on a1, which had never moved.
  The queen-side flag of White is still set in the state \<open>makeMove\<close> returns, and the
  move of the white king to c1 is among its legal moves there.
\<close>

theorem rook_capture_keeps_flag:
  "getPieceAt (board rookCaptureState) (sq 7 0) = Some \<lparr>ptype = rook, color = white\<rparr> \<and>
   makeMove rookCaptureState (sq 6 1) (sq 7 0) = Some afterRookCapture \<and>
   getPieceAt (board afterRookCapture) (sq 7 0) = Some \<lparr>ptype = king, color = black\<rparr> \<and>
   capturedPieces afterRookCapture black = [\<lparr>ptype = rook, color = white\<rparr>] \<and>
   whiteQueenSide (castlingRights afterRookCapture) \<and>
   sq 7 2 \<in> set (getLegalMoves (board afterRookCapture) (sq 7 4)
                   (enPassantTarget afterRookCapture) (castlingRights afterRookCapture))"
proof -
  have "makeMove rookCaptureState (sq 6 1) (sq 7 0) \<noteq> None" by code_simp
  then have m: "makeMove rookCaptureState (sq 6 1) (sq 7 0) = Some afterRookCapture"
    by (auto simp: afterRookCapture_def)
  have "getPieceAt (board rookCaptureState) (sq 7 0) = Some \<lparr>ptype = rook, color = white\<rparr>"
    by code_simp
  moreover have "getPieceAt (board afterRookCapture) (sq 7 0) = Some \<lparr>ptype = king, color = black\<rparr>"
    by code_simp
  moreover have "capturedPieces afterRookCapture black = [\<lparr>ptype = rook, color = white\<rparr>]"
    by code_simp
  moreover have "whiteQueenSide (castlingRights afterRookCapture)"
    by code_simp
  moreover have "sq 7 2 \<in> set (getLegalMoves (board afterRookCapture) (sq 7 4)
                   (enPassantTarget afterRookCapture) (castlingRights afterRookCapture))"
    by code_simp
  ultimately show ?thesis using m by simp
qed

text \<open>
  The same defect shows in the legality round trip: that king move is treated as
  castling, the black king is carried from a1 to d1 as if it were the rook, and the white
  king stands in check on c1 in the state \<open>makeMove\<close> returns.
\<close>

lemma castling_without_rook:
  "makeMove afterRookCapture (sq 7 4) (sq 7 2) = Some afterCornerCastle \<and>
   getPieceAt (board afterCornerCastle) (sq 7 3) = Some \<lparr>ptype = king, color = black\<rparr> \<and>
   getPieceAt (board afterCornerCastle) (sq 7 2) = Some \<lparr>ptype = king, color = white\<rparr> \<and>
   isInCheck (board afterCornerCastle) white"
proof -
  have "makeMove afterRookCapture (sq 7 4) (sq 7 2) \<noteq> None" by code_simp
  then have m: "makeMove afterRookCapture (sq 7 4) (sq 7 2) = Some afterCornerCastle"
    by (auto simp: afterCornerCastle_def)
  have "getPieceAt (board afterCornerCastle) (sq 7 3) = Some \<lparr>ptype = king, color = black\<rparr>"
    by code_simp
  moreover have "getPieceAt (board afterCornerCastle) (sq 7 2) = Some \<lparr>ptype = king, color = white\<rparr>"
    by code_simp
  moreover have "isInCheck (board afterCornerCastle) white"
    by code_simp
  ultimately show ?thesis using m by simp
qed

section \<open>The search reads the position only\<close>

lemma samePosition_leafResult:
  "samePosition s t \<Longrightarrow> leafResult s mx = leafResult t mx"
  by (simp add: samePosition_def leafResult_def)

lemma samePosition_sortedMoves:
  assumes "samePosition s t"
  shows "sortedMoves s = sortedMoves t"
proof -
  have eqs: "board s = board t" "currentPlayer s = currentPlayer t"
    "enPassantTarget s = enPassantTarget t" "castlingRights s = castlingRights t"
    using assms by (simp_all add: samePosition_def)
  show ?thesis
    unfolding sortedMoves_def allMoves_def eqs ..
qed

lemma samePosition_makeMove:
  assumes "samePosition s t"
  shows "(makeMove s from to = None \<longleftrightarrow> makeMove t from to = None) \<and>
         (\<forall>s' t'. makeMove s from to = Some s' \<and> makeMove t from to = Some t'
            \<longrightarrow> samePosition s' t')"
proof -
  have eqs: "board s = board t" "currentPlayer s = currentPlayer t"
    "enPassantTarget s = enPassantTarget t" "castlingRights s = castlingRights t"
    using assms by (simp_all add: samePosition_def)
  have none: "makeMove s from to = None \<longleftrightarrow> makeMove t from to = None"
    by (simp only: makeMove_None_iff eqs)
  have "samePosition s' t'"
    if m: "makeMove s from to = Some s'" "makeMove t from to = Some t'" for s' t'
  proof -
    from makeMove_Some[OF m(1)] obtain p where p:
      "getPieceAt (board s) from = Some p"
      "board s' = moveBoard (board s) p from to (enPassantTarget s)"
      "currentPlayer s' = opponent (color p)"
      "enPassantTarget s' =
         (if ptype p = pawn \<and> \<bar>row to - row from\<bar> = 2
          then Some \<lparr>row = (row from + row to) div 2, col = col from\<rparr> else None)"
      "castlingRights s' = moveCastlingRights (castlingRights s) p from"
      "isCheck s' = isInCheck (board s') (currentPlayer s')"
      "isCheckmate s' =
         (isCheck s' \<and> \<not> checkHasLegalMoves (board s') (currentPlayer s')
                            (enPassantTarget s') (castlingRights s'))"
      "isStalemate s' =
         (\<not> isCheck s' \<and> \<not> checkHasLegalMoves (board s') (currentPlayer s')
                              (enPassantTarget s') (castlingRights s'))"
      by blast
    from makeMove_Some[OF m(2)] obtain q where q:
      "getPieceAt (board t) from = Some q"
      "board t' = moveBoard (board t) q from to (enPassantTarget t)"
      "currentPlayer t' = opponent (color q)"
      "enPassantTarget t' =
         (if ptype q = pawn \<and> \<bar>row to - row from\<bar> = 2
          then Some \<lparr>row = (row from + row to) div 2, col = col from\<rparr> else None)"
      "castlingRights t' = moveCastlingRights (castlingRights t) q from"
      "isCheck t' = isInCheck (board t') (currentPlayer t')"
      "isCheckmate t' =
         (isCheck t' \<and> \<not> checkHasLegalMoves (board t') (currentPlayer t')
                            (enPassantTarget t') (castlingRights t'))"
      "isStalemate t' =
         (\<not> isCheck t' \<and> \<not> checkHasLegalMoves (board t') (currentPlayer t')
                              (enPassantTarget t') (castlingRights t'))"
      by blast
    have pq: "q = p" using p(1) q(1) eqs(1) by simp
    have b: "board s' = board t'" using p(2) q(2) pq eqs by simp
    have c: "currentPlayer s' = currentPlayer t'" using p(3) q(3) pq by simp
    have e: "enPassantTarget s' = enPassantTarget t'" using p(4) q(4) pq by simp
    have r: "castlingRights s' = castlingRights t'" using p(5) q(5) pq eqs by simp
    have k: "isCheck s' = isCheck t'" using p(6) q(6) b c by simp
    have cm: "isCheckmate s' = isCheckmate t'" using p(7) q(7) b c e r k by simp
    have sm: "isStalemate s' = isStalemate t'" using p(8) q(8) b c e r k by simp
    show ?thesis
      using b c e r k cm sm by (simp add: samePosition_def)
  qed
  with none show ?thesis by blast
qed

lemma samePosition_maxLoop:
  assumes "\<And>s' t' a b. samePosition s' t' \<Longrightarrow> search s' a b = search' t' a b"
    and "samePosition s t"
  shows "maxLoop search s ms alpha beta best bm = maxLoop search' t ms alpha beta best bm"
proof (induction ms arbitrary: alpha best bm)
  case Nil
  show ?case by simp
next
  case (Cons m ms)
  show ?case
  proof (cases "makeMove s (fst m) (snd m)")
    case None
    then have "makeMove t (fst m) (snd m) = None"
      using samePosition_makeMove[OF assms(2)] by blast
    with None Cons.IH show ?thesis by simp
  next
    case (Some s')
    then obtain t' where t': "makeMove t (fst m) (snd m) = Some t'"
      using samePosition_makeMove[OF assms(2), of "fst m" "snd m"] by (cases "makeMove t (fst m) (snd m)") auto
    have "samePosition s' t'"
      using samePosition_makeMove[OF assms(2)] Some t' by blast
    then have "search s' alpha beta = search' t' alpha beta"
      by (rule assms(1))
    with Some t' Cons.IH show ?thesis by (simp add: Let_def)
  qed
qed

lemma samePosition_minLoop:
  assumes "\<And>s' t' a b. samePosition s' t' \<Longrightarrow> search s' a b = search' t' a b"
    and "samePosition s t"
  shows "minLoop search s ms alpha beta best bm = minLoop search' t ms alpha beta best bm"
proof (induction ms arbitrary: beta best bm)
  case Nil
  show ?case by simp
next
  case (Cons m ms)
  show ?case
  proof (cases "makeMove s (fst m) (snd m)")
    case None
    then have "makeMove t (fst m) (snd m) = None"
      using samePosition_makeMove[OF assms(2)] by blast
    with None Cons.IH show ?thesis by simp
  next
    case (Some s')
    then obtain t' where t': "makeMove t (fst m) (snd m) = Some t'"
      using samePosition_makeMove[OF assms(2), of "fst m" "snd m"] by (cases "makeMove t (fst m) (snd m)") auto
    have "samePosition s' t'"
      using samePosition_makeMove[OF assms(2)] Some t' by blast
    then have "search s' alpha beta = search' t' alpha beta"
      by (rule assms(1))
    with Some t' Cons.IH show ?thesis by (simp add: Let_def)
  qed
qed

lemma samePosition_minimax:
  "samePosition s t \<Longrightarrow> minimax s depth alpha beta mx = minimax t depth alpha beta mx"
proof (induction depth arbitrary: s t alpha beta mx)
  case 0
  then show ?case by (simp add: samePosition_leafResult)
next
  case (Suc depth)
  have flags: "isCheckmate s = isCheckmate t" "isStalemate s = isStalemate t"
    using Suc.prems by (simp_all add: samePosition_def)
  have moves: "sortedMoves s = sortedMoves t"
    using Suc.prems by (rule samePosition_sortedMoves)
  have mx: "maxLoop (\<lambda>s a b. minimax s depth a b False) s ms a b best bm =
            maxLoop (\<lambda>s a b. minimax s depth a b False) t ms a b best bm" for ms a b best bm
    using Suc.IH Suc.prems by (intro samePosition_maxLoop)
  have mn: "minLoop (\<lambda>s a b. minimax s depth a b True) s ms a b best bm =
            minLoop (\<lambda>s a b. minimax s depth a b True) t ms a b best bm" for ms a b best bm
    using Suc.IH Suc.prems by (intro samePosition_minLoop)
  show ?case
    using flags moves mx mn samePosition_leafResult[OF Suc.prems] by simp
qed

section \<open>The order of the moves\<close>

lemma sorted_two_keys:
  fixes f :: "'a \<Rightarrow> nat"
  assumes "sorted (map f ys)" and "\<forall>x\<in>set ys. f x = 0 \<or> f x = 1"
  shows "ys = filter (\<lambda>x. f x = 0) ys @ filter (\<lambda>x. f x = 1) ys"
  using assms
proof (induction ys)
  case Nil
  show ?case by simp
next
  case (Cons y ys)
  then have IH: "ys = filter (\<lambda>x. f x = 0) ys @ filter (\<lambda>x. f x = 1) ys"
    by simp
  show ?case
  proof (cases "f y = 0")
    case True
    then show ?thesis using IH by simp
  next
    case False
    with Cons.prems have one: "f y = 1" by simp
    with Cons.prems have all: "\<forall>x\<in>set ys. f x = 1" by fastforce
    then have "filter (\<lambda>x. f x = 0) ys = []" "filter (\<lambda>x. f x = 1) ys = ys"
      by (simp_all add: filter_empty_conv filter_id_conv)
    with one show ?thesis by simp
  qed
qed

lemma sort_key_two_keys:
  fixes f :: "'a \<Rightarrow> nat"
  assumes "\<forall>x\<in>set xs. f x = 0 \<or> f x = 1"
  shows "sort_key f xs = filter (\<lambda>x. f x = 0) xs @ filter (\<lambda>x. f x = 1) xs"
proof -
  have "sort_key f xs =
          filter (\<lambda>x. f x = 0) (sort_key f xs) @ filter (\<lambda>x. f x = 1) (sort_key f xs)"
    using assms by (intro sorted_two_keys) simp_all
  then show ?thesis
    by (simp only: sort_key_stable)
qed

lemma sortedMoves_captures_first:
  "sortedMoves gs =
     filter (\<lambda>m. getPieceAt (board gs) (snd m) \<noteq> None) (allMoves gs) @
     filter (\<lambda>m. getPieceAt (board gs) (snd m) = None) (allMoves gs)"
proof -
  let ?key = "\<lambda>m::FromTo. if getPieceAt (board gs) (snd m) \<noteq> None then (0::nat) else 1"
  have "sort_key ?key (allMoves gs) =
          filter (\<lambda>m. ?key m = 0) (allMoves gs) @ filter (\<lambda>m. ?key m = 1) (allMoves gs)"
    by (rule sort_key_two_keys) simp
  moreover have "filter (\<lambda>m. ?key m = 0) (allMoves gs) =
                 filter (\<lambda>m. getPieceAt (board gs) (snd m) \<noteq> None) (allMoves gs)"
    by (rule filter_cong) simp_all
  moreover have "filter (\<lambda>m. ?key m = 1) (allMoves gs) =
                 filter (\<lambda>m. getPieceAt (board gs) (snd m) = None) (allMoves gs)"
    by (rule filter_cong) simp_all
  ultimately show ?thesis
    by (simp only: sortedMoves_def)
qed

lemma allMoves_accepted:
  assumes "m \<in> set (allMoves gs)"
  shows "makeMove gs (fst m) (snd m) \<noteq> None"
proof -
  from assms obtain s where
    m: "m \<in> set (case getPieceAt (board gs) s of
         None \<Rightarrow> []
       | Some p \<Rightarrow>
           if color p = currentPlayer gs
           then map (\<lambda>to. (s, to))
                  (getLegalMoves (board gs) s (enPassantTarget gs) (castlingRights gs))
           else [])"
    unfolding allMoves_def by auto
  then obtain p where p: "getPieceAt (board gs) s = Some p"
    by (cases "getPieceAt (board gs) s") auto
  with m have c: "color p = currentPlayer gs"
    and l: "m \<in> (\<lambda>to. (s, to)) ` set (getLegalMoves (board gs) s (enPassantTarget gs)
                                        (castlingRights gs))"
    by (auto split: if_splits)
  from l have "fst m = s"
    "snd m \<in> set (getLegalMoves (board gs) s (enPassantTarget gs) (castlingRights gs))"
    by auto
  with p c show ?thesis
    by (simp add: makeMove_None_iff)
qed

section \<open>The loop keeps the first best move\<close>

lemma maxTrace_prefix:
  assumes "\<forall>m\<in>set ms. makeMove gs (fst m) (snd m) \<noteq> None"
  shows "\<exists>rest. ms = map fst (maxTrace search gs ms alpha beta) @ rest"
  using assms
proof (induction ms arbitrary: alpha)
  case Nil
  show ?case by simp
next
  case (Cons m ms)
  then obtain s' where s': "makeMove gs (fst m) (snd m) = Some s'"
    by auto
  from Cons have "\<exists>rest. ms = map fst (maxTrace search gs ms a beta) @ rest" for a
    by simp
  then show ?case
    using s' by (auto simp: Let_def)
qed

lemma keepsFirstBest_stop:
  "keepsFirstBest [(m, s1)] best bm
     \<lparr>score = (if s1 > best then s1 else best), move = (if s1 > best then Some m else bm)\<rparr>"
proof (cases "s1 > best")
  case True
  have "[(m, s1)] = [] @ (m, s1) # []" by simp
  then have "\<exists>pre m' post. [(m, s1)] = pre @ (m', s1) # post \<and>
      (\<forall>x\<in>set pre. snd x < s1) \<and> (\<forall>x\<in>set post. snd x \<le> s1) \<and> Some m = Some m'"
    by fastforce
  moreover have "\<not> s1 \<le> best" using True by (simp add: not_le)
  ultimately show ?thesis
    using True by (simp add: keepsFirstBest_def)
next
  case False
  then have "s1 \<le> best" by (simp add: not_less)
  with False show ?thesis
    by (simp add: keepsFirstBest_def)
qed

lemma keepsFirstBest_step:
  assumes "keepsFirstBest tr (if s1 > best then s1 else best)
             (if s1 > best then Some m else bm) r"
  shows "keepsFirstBest ((m, s1) # tr) best bm r"
proof (cases "\<forall>x\<in>set tr. snd x \<le> (if s1 > best then s1 else best)")
  case all: True
  with assms have r: "r = \<lparr>score = (if s1 > best then s1 else best),
                              move = (if s1 > best then Some m else bm)\<rparr>"
    by (simp add: keepsFirstBest_def)
  show ?thesis
  proof (cases "s1 > best")
    case True
    with r have r': "score r = s1" "move r = Some m" by simp_all
    have "(m, s1) # tr = [] @ (m, score r) # tr" using r' by simp
    moreover have "\<forall>x\<in>set tr. snd x \<le> score r" using all True r' by simp
    ultimately have "\<exists>pre m' post. (m, s1) # tr = pre @ (m', score r) # post \<and>
        (\<forall>x\<in>set pre. snd x < score r) \<and> (\<forall>x\<in>set post. snd x \<le> score r) \<and>
        best < score r \<and> move r = Some m'"
      using True r' by fastforce
    moreover have "\<not> (\<forall>x\<in>set ((m, s1) # tr). snd x \<le> best)"
      using True by auto
    ultimately show ?thesis
      unfolding keepsFirstBest_def by blast
  next
    case False
    with r have "r = \<lparr>score = best, move = bm\<rparr>" by simp
    moreover have "\<forall>x\<in>set ((m, s1) # tr). snd x \<le> best"
      using all False by auto
    ultimately show ?thesis
      unfolding keepsFirstBest_def by blast
  qed
next
  case notall: False
  with assms obtain pre m' post where p:
    "tr = pre @ (m', score r) # post" "\<forall>x\<in>set pre. snd x < score r"
    "\<forall>x\<in>set post. snd x \<le> score r" "(if s1 > best then s1 else best) < score r"
    "move r = Some m'"
    unfolding keepsFirstBest_def by blast
  have s1lt: "s1 < score r" and blt: "best < score r"
    using p(4) by (auto split: if_splits)
  have "(m, s1) # tr = ((m, s1) # pre) @ (m', score r) # post"
    using p(1) by simp
  moreover have "\<forall>x\<in>set ((m, s1) # pre). snd x < score r"
    using p(2) s1lt by simp
  ultimately have "\<exists>pre m' post. (m, s1) # tr = pre @ (m', score r) # post \<and>
      (\<forall>x\<in>set pre. snd x < score r) \<and> (\<forall>x\<in>set post. snd x \<le> score r) \<and>
      best < score r \<and> move r = Some m'"
    using p(3,5) blt by blast
  moreover have "\<not> (\<forall>x\<in>set ((m, s1) # tr). snd x \<le> best)"
    using p(1) blt by auto
  ultimately show ?thesis
    unfolding keepsFirstBest_def by blast
qed

lemma maxLoop_first_best:
  "keepsFirstBest (maxTrace search gs ms alpha beta) best bm
     (maxLoop search gs ms alpha beta best bm)"
proof (induction ms arbitrary: alpha best bm)
  case Nil
  show ?case by (simp add: keepsFirstBest_def)
next
  case (Cons m ms)
  show ?case
  proof (cases "makeMove gs (fst m) (snd m)")
    case None
    with Cons.IH[of alpha best bm] show ?thesis by simp
  next
    case (Some s')
    define s1 where "s1 = score (search s' alpha beta)"
    show ?thesis
    proof (cases "beta \<le> max alpha s1")
      case True
      have "maxTrace search gs (m # ms) alpha beta = [(m, s1)]"
        using Some True by (simp add: Let_def s1_def)
      moreover have "maxLoop search gs (m # ms) alpha beta best bm =
          \<lparr>score = (if s1 > best then s1 else best),
           move = (if s1 > best then Some m else bm)\<rparr>"
        using Some True by (simp add: Let_def s1_def)
      ultimately show ?thesis
        by (simp only: keepsFirstBest_stop)
    next
      case False
      have "maxTrace search gs (m # ms) alpha beta =
              (m, s1) # maxTrace search gs ms (max alpha s1) beta"
        using Some False by (simp add: Let_def s1_def)
      moreover have "maxLoop search gs (m # ms) alpha beta best bm =
          maxLoop search gs ms (max alpha s1) beta (if s1 > best then s1 else best)
            (if s1 > best then Some m else bm)"
        using Some False by (simp add: Let_def s1_def)
      ultimately show ?thesis
        using keepsFirstBest_step[OF Cons.IH[of "max alpha s1" "if s1 > best then s1 else best"
              "if s1 > best then Some m else bm"]]
        by simp
    qed
  qed
qed

lemma le_NegInfinity: "x \<le> NegInfinity \<longleftrightarrow> x = NegInfinity"
  by (cases x) simp_all

lemma getBestMove_root:
  assumes "\<not> isCheckmate gs" "\<not> isStalemate gs"
  shows "getBestMove gs (Suc d) =
           move (maxLoop (\<lambda>s a b. minimax s d a b False) gs (sortedMoves gs)
                   NegInfinity PosInfinity NegInfinity None)"
  using assms by (simp add: getBestMove_def)

text \<open>
  C8. The move \<open>getBestMove\<close> returns is a function of the position and the depth alone:
  two states that agree on the board, the side to move, the en-passant target, the
  castling rights and the three flags get the same answer, whatever their history and
  captured pieces hold (the only data a search writes to). The moves are examined with
  those onto an occupied square first, each group in the order of enumeration. Among the
  moves examined at the root of a position that is not checkmate or stalemate, the move
  returned is the first one whose score is the best score: every move examined before it
  scored strictly less, and no move examined after it scored more, so a later move with
  an equal score never replaces it.
\<close>

theorem getBestMove_deterministic:
  "(samePosition gs gs' \<longrightarrow> getBestMove gs depth = getBestMove gs' depth) \<and>
   sortedMoves gs =
     filter (\<lambda>m. getPieceAt (board gs) (snd m) \<noteq> None) (allMoves gs) @
     filter (\<lambda>m. getPieceAt (board gs) (snd m) = None) (allMoves gs) \<and>
   (\<not> isCheckmate gs \<and> \<not> isStalemate gs \<longrightarrow>
      (\<exists>rest. sortedMoves gs = map fst (rootTrace gs d) @ rest) \<and>
      (case getBestMove gs (Suc d) of
         None \<Rightarrow> \<forall>x\<in>set (rootTrace gs d). snd x = NegInfinity
       | Some m \<Rightarrow>
           \<exists>pre s post. rootTrace gs d = pre @ (m, s) # post \<and>
             (\<forall>x\<in>set pre. snd x < s) \<and> (\<forall>x\<in>set post. snd x \<le> s)))"
proof (intro conjI impI)
  assume "samePosition gs gs'"
  then show "getBestMove gs depth = getBestMove gs' depth"
    by (simp add: getBestMove_def samePosition_minimax[of gs gs'])
next
  show "sortedMoves gs =
     filter (\<lambda>m. getPieceAt (board gs) (snd m) \<noteq> None) (allMoves gs) @
     filter (\<lambda>m. getPieceAt (board gs) (snd m) = None) (allMoves gs)"
    by (rule sortedMoves_captures_first)
next
  assume nt: "\<not> isCheckmate gs \<and> \<not> isStalemate gs"
  have "\<forall>m\<in>set (sortedMoves gs). makeMove gs (fst m) (snd m) \<noteq> None"
    by (simp add: sortedMoves_def allMoves_accepted)
  then show "\<exists>rest. sortedMoves gs = map fst (rootTrace gs d) @ rest"
    unfolding rootTrace_def by (rule maxTrace_prefix)
next
  assume nt: "\<not> isCheckmate gs \<and> \<not> isStalemate gs"
  define r where "r = maxLoop (\<lambda>s a b. minimax s d a b False) gs (sortedMoves gs)
                        NegInfinity PosInfinity NegInfinity None"
  have best: "getBestMove gs (Suc d) = move r"
    using nt by (simp add: getBestMove_root r_def)
  have k: "keepsFirstBest (rootTrace gs d) NegInfinity None r"
    unfolding rootTrace_def r_def by (rule maxLoop_first_best)
  show "case getBestMove gs (Suc d) of
         None \<Rightarrow> \<forall>x\<in>set (rootTrace gs d). snd x = NegInfinity
       | Some m \<Rightarrow>
           \<exists>pre s post. rootTrace gs d = pre @ (m, s) # post \<and>
             (\<forall>x\<in>set pre. snd x < s) \<and> (\<forall>x\<in>set post. snd x \<le> s)"
  proof (cases "\<forall>x\<in>set (rootTrace gs d). snd x \<le> NegInfinity")
    case True
    with k have "r = \<lparr>score = NegInfinity, move = None\<rparr>"
      by (simp add: keepsFirstBest_def)
    then have "move r = None" by simp
    with True best show ?thesis
      by (simp add: le_NegInfinity)
  next
    case False
    with k obtain pre m post where p:
      "rootTrace gs d = pre @ (m, score r) # post" "\<forall>x\<in>set pre. snd x < score r"
      "\<forall>x\<in>set post. snd x \<le> score r" "move r = Some m"
      unfolding keepsFirstBest_def by blast
    then show ?thesis
      using best by auto
  qed
qed

theorem getBestMove_deterministic_witness:
  "samePosition kingsOnlyState
     (kingsOnlyState\<lparr>capturedPieces := \<lambda>c. [\<lparr>ptype = pawn, color = c\<rparr>]\<rparr>) \<and>
   getBestMove kingsOnlyState (Suc 0) =
     getBestMove (kingsOnlyState\<lparr>capturedPieces := \<lambda>c. [\<lparr>ptype = pawn, color = c\<rparr>]\<rparr>) (Suc 0) \<and>
   \<not> isCheckmate kingsOnlyState \<and> \<not> isStalemate kingsOnlyState \<and>
   sortedMoves kingsOnlyState = [(sq 7 0, sq 6 0), (sq 7 0, sq 6 1), (sq 7 0, sq 7 1)] \<and>
   rootTrace kingsOnlyState 0 =
     [((sq 7 0, sq 6 0), Finite 0), ((sq 7 0, sq 6 1), Finite 0), ((sq 7 0, sq 7 1), Finite (-10))] \<and>
   getBestMove kingsOnlyState (Suc 0) = Some (sq 7 0, sq 6 0)"
proof -
  let ?K = kingsOnlyState
  let ?K' = "kingsOnlyState\<lparr>capturedPieces := \<lambda>c. [\<lparr>ptype = pawn, color = c\<rparr>]\<rparr>"
  have same: "samePosition ?K ?K'"
    by (simp add: samePosition_def)
  have nt: "\<not> isCheckmate ?K" "\<not> isStalemate ?K"
    by (simp_all add: kingsOnlyState_def stateOf_def)
  have sm: "sortedMoves ?K = [(sq 7 0, sq 6 0), (sq 7 0, sq 6 1), (sq 7 0, sq 7 1)]"
    by code_simp
  have a1: "makeMove ?K (sq 7 0) (sq 6 0) \<noteq> None" by code_simp
  have b1: "score (leafResult (the (makeMove ?K (sq 7 0) (sq 6 0))) False) = Finite 0"
    by code_simp
  have a2: "makeMove ?K (sq 7 0) (sq 6 1) \<noteq> None" by code_simp
  have b2: "score (leafResult (the (makeMove ?K (sq 7 0) (sq 6 1))) False) = Finite 0"
    by code_simp
  have a3: "makeMove ?K (sq 7 0) (sq 7 1) \<noteq> None" by code_simp
  have b3: "score (leafResult (the (makeMove ?K (sq 7 0) (sq 7 1))) False) = Finite (-10)"
    by code_simp
  from a1 b1 obtain X1 where X1: "makeMove ?K (sq 7 0) (sq 6 0) = Some X1"
    "score (leafResult X1 False) = Finite 0" by auto
  from a2 b2 obtain X2 where X2: "makeMove ?K (sq 7 0) (sq 6 1) = Some X2"
    "score (leafResult X2 False) = Finite 0" by auto
  from a3 b3 obtain X3 where X3: "makeMove ?K (sq 7 0) (sq 7 1) = Some X3"
    "score (leafResult X3 False) = Finite (-10)" by auto
  have tr: "rootTrace ?K 0 =
     [((sq 7 0, sq 6 0), Finite 0), ((sq 7 0, sq 6 1), Finite 0), ((sq 7 0, sq 7 1), Finite (-10))]"
    by (simp add: rootTrace_def sm X1 X2 X3 Let_def max_def)
  from getBestMove_deterministic[of ?K ?K' "Suc 0" 0] same nt
  have eq: "getBestMove ?K (Suc 0) = getBestMove ?K' (Suc 0)"
    and first: "case getBestMove ?K (Suc 0) of
         None \<Rightarrow> \<forall>x\<in>set (rootTrace ?K 0). snd x = NegInfinity
       | Some m \<Rightarrow>
           \<exists>pre s post. rootTrace ?K 0 = pre @ (m, s) # post \<and>
             (\<forall>x\<in>set pre. snd x < s) \<and> (\<forall>x\<in>set post. snd x \<le> s)"
    by blast+
  have best: "getBestMove ?K (Suc 0) = Some (sq 7 0, sq 6 0)"
  proof (cases "getBestMove ?K (Suc 0)")
    case None
    with first tr show ?thesis by simp
  next
    case (Some m)
    with first tr obtain pre s post where p:
      "[((sq 7 0, sq 6 0), Finite 0), ((sq 7 0, sq 6 1), Finite 0), ((sq 7 0, sq 7 1), Finite (-10))]
         = pre @ (m, s) # post"
      "\<forall>x\<in>set pre. snd x < s" "\<forall>x\<in>set post. snd x \<le> s"
      by auto
    have "pre = []"
    proof (rule ccontr)
      assume "pre \<noteq> []"
      then obtain y ys where "pre = y # ys" by (cases pre) auto
      with p(1) have y: "y = ((sq 7 0, sq 6 0), Finite 0)" and
        rest: "[((sq 7 0, sq 6 1), Finite 0), ((sq 7 0, sq 7 1), Finite (-10))] = ys @ (m, s) # post"
        by simp_all
      from y p(2) \<open>pre = y # ys\<close> have "Finite 0 < s" by simp
      moreover from rest have "(m, s) \<in> set [((sq 7 0, sq 6 1), Finite 0), ((sq 7 0, sq 7 1), Finite (-10))]"
        by (metis in_set_conv_decomp)
      ultimately show False
        by (auto simp: less_Score_def)
    qed
    with p(1) have "m = (sq 7 0, sq 6 0)" by simp
    with Some show ?thesis by simp
  qed
  show ?thesis
    using same eq nt sm tr best by simp
qed

section \<open>Relocating the rook does not expose the king\<close>

text \<open>
  Castling moves whatever stands on the rook's corner to the square next to the king. The
  lemmas below compare a board \<open>b\<close> with the board \<open>b'\<close> after such a relocation from
  the corner \<open>P7\<close> to a square \<open>P5\<close> that was empty.
\<close>

lemma corner_ends_ray:
  assumes "isValidPosition \<lparr>row = r - dRow, col = c - dCol\<rparr>" and "dRow \<noteq> 0 \<or> dCol \<noteq> 0"
    and "r = 0 \<or> r = 7" and "c = 0 \<or> c = 7"
  shows "\<not> isValidPosition \<lparr>row = r + dRow, col = c + dCol\<rparr>"
  using assms by (auto simp: isValidPosition_def)

lemma slide_relocate:
  assumes "\<forall>q. isValidPosition q \<and> q \<noteq> P5 \<and> q \<noteq> P7 \<longrightarrow> getPieceAt b' q = getPieceAt b q"
    and "getPieceAt b P5 = None" and "getPieceAt b' P7 = None"
    and "row P7 = 0 \<or> row P7 = 7" and "col P7 = 0 \<or> col P7 = 7"
    and "k \<noteq> P5" and "k \<noteq> P7"
    and "isValidPosition \<lparr>row = r - dRow, col = c - dCol\<rparr>"
    and "k \<in> set (slide b' clr r c dRow dCol)"
  shows "k \<in> set (slide b clr r c dRow dCol)"
  using assms
proof (induction b' clr r c dRow dCol rule: slide.induct)
  case (1 b' clr r c dRow dCol)
  let ?here = "\<lparr>row = r, col = c\<rparr>"
  have cond: "isValidPosition ?here \<and> (dRow \<noteq> 0 \<or> dCol \<noteq> 0)"
    using "1.prems"(9) by (cases "isValidPosition ?here \<and> (dRow \<noteq> 0 \<or> dCol \<noteq> 0)")
      (simp_all add: slide.simps[of b' clr r c])
  have prev': "isValidPosition \<lparr>row = r + dRow - dRow, col = c + dCol - dCol\<rparr>"
    using cond by simp
  show ?case
  proof (cases "getPieceAt b' ?here")
    case None
    have mem: "k = ?here \<or> k \<in> set (slide b' clr (r + dRow) (c + dCol) dRow dCol)"
      using "1.prems"(9) cond None by (simp add: slide.simps[of b' clr r c])
    have next_b: "k \<in> set (slide b clr (r + dRow) (c + dCol) dRow dCol)"
      if "k \<in> set (slide b' clr (r + dRow) (c + dCol) dRow dCol)"
      using "1.IH"[OF cond None "1.prems"(1-7) prev' that] .
    show ?thesis
    proof (cases "?here = P7")
      case True
      then have "row P7 = r" "col P7 = c" by auto
      with "1.prems"(4,5,8) cond
      have "\<not> isValidPosition \<lparr>row = r + dRow, col = c + dCol\<rparr>"
        by (intro corner_ends_ray) auto
      then have "slide b' clr (r + dRow) (c + dCol) dRow dCol = []"
        by (simp add: slide.simps[of b' clr "r + dRow" "c + dCol"])
      with mem True "1.prems"(7) show ?thesis by simp
    next
      case notP7: False
      have here_b: "getPieceAt b ?here = None"
      proof (cases "?here = P5")
        case True
        with "1.prems"(2) show ?thesis by simp
      next
        case False
        with notP7 cond "1.prems"(1) None show ?thesis by auto
      qed
      from mem show ?thesis
      proof
        assume "k = ?here"
        with cond here_b show ?thesis by (simp add: slide.simps[of b clr r c])
      next
        assume "k \<in> set (slide b' clr (r + dRow) (c + dCol) dRow dCol)"
        from next_b[OF this] cond here_b show ?thesis
          by (simp add: slide.simps[of b clr r c])
      qed
    qed
  next
    case (Some t)
    have mem: "k = ?here \<and> color t \<noteq> clr"
      using "1.prems"(9) cond Some by (simp add: slide.simps[of b' clr r c] split: if_splits)
    have "?here \<noteq> P7" using Some "1.prems"(3) by auto
    moreover have "?here \<noteq> P5" using mem "1.prems"(6) by auto
    ultimately have "getPieceAt b ?here = Some t"
      using cond "1.prems"(1) Some by auto
    with mem cond show ?thesis by (simp add: slide.simps[of b clr r c])
  qed
qed

lemma getSlidingMoves_relocate:
  assumes "\<forall>q. isValidPosition q \<and> q \<noteq> P5 \<and> q \<noteq> P7 \<longrightarrow> getPieceAt b' q = getPieceAt b q"
    and "getPieceAt b P5 = None" and "getPieceAt b' P7 = None"
    and "row P7 = 0 \<or> row P7 = 7" and "col P7 = 0 \<or> col P7 = 7"
    and "k \<noteq> P5" and "k \<noteq> P7"
    and "isValidPosition s"
    and "k \<in> set (getSlidingMoves b' s clr ds)"
  shows "k \<in> set (getSlidingMoves b s clr ds)"
proof -
  from assms(9) obtain d where d: "d \<in> set ds"
    and m: "k \<in> set (slide b' clr (row s + fst d) (col s + snd d) (fst d) (snd d))"
    by (auto simp: getSlidingMoves_def)
  have "isValidPosition \<lparr>row = row s + fst d - fst d, col = col s + snd d - snd d\<rparr>"
    using assms(8) by (simp add: isValidPosition_def)
  from slide_relocate[OF assms(1-7) this m]
  have "k \<in> set (slide b clr (row s + fst d) (col s + snd d) (fst d) (snd d))" .
  with d show ?thesis
    by (force simp: getSlidingMoves_def)
qed

lemma offsetMoves_iff:
  "k \<in> set (offsetMoves b s clr offs) \<longleftrightarrow>
     (\<exists>d\<in>set offs. k = \<lparr>row = row s + fst d, col = col s + snd d\<rparr>) \<and> isValidPosition k \<and>
     (case getPieceAt b k of None \<Rightarrow> True | Some t \<Rightarrow> color t \<noteq> clr)"
proof (induction offs)
  case Nil
  show ?case by (simp add: offsetMoves_def)
next
  case (Cons d ds)
  have split: "offsetMoves b s clr (d # ds) = offsetMoves b s clr [d] @ offsetMoves b s clr ds"
    by (simp add: offsetMoves_def)
  have one: "k \<in> set (offsetMoves b s clr [d]) \<longleftrightarrow>
     k = \<lparr>row = row s + fst d, col = col s + snd d\<rparr> \<and> isValidPosition k \<and>
     (case getPieceAt b k of None \<Rightarrow> True | Some t \<Rightarrow> color t \<noteq> clr)"
    by (cases d) (auto simp: offsetMoves_def Let_def split: option.splits)
  show ?case
    unfolding split using one Cons.IH by auto
qed

lemma offsetMoves_relocate:
  assumes "getPieceAt b' k = getPieceAt b k" and "k \<in> set (offsetMoves b' s clr offs)"
  shows "k \<in> set (offsetMoves b s clr offs)"
  using assms by (simp add: offsetMoves_iff)

lemma getPawnMoves_capture:
  assumes "getPieceAt b k \<noteq> None"
  shows "k \<in> set (getPawnMoves b s clr None) \<longleftrightarrow>
     (k = \<lparr>row = row s + (if clr = white then -1 else 1), col = col s - 1\<rparr> \<or>
      k = \<lparr>row = row s + (if clr = white then -1 else 1), col = col s + 1\<rparr>) \<and>
     isValidPosition k \<and> (\<exists>t. getPieceAt b k = Some t \<and> color t \<noteq> clr)"
  using assms
  by (cases "clr = white") (auto simp: getPawnMoves_def Let_def split: option.splits)

lemma getPawnMoves_relocate:
  assumes "getPieceAt b' k = getPieceAt b k" and "getPieceAt b k \<noteq> None"
    and "k \<in> set (getPawnMoves b' s clr None)"
  shows "k \<in> set (getPawnMoves b s clr None)"
  using assms by (simp add: getPawnMoves_capture)

lemma getPseudoLegalMoves_relocate:
  assumes agree: "\<forall>q. isValidPosition q \<and> q \<noteq> P5 \<and> q \<noteq> P7 \<longrightarrow> getPieceAt b' q = getPieceAt b q"
    and "getPieceAt b P5 = None" and "getPieceAt b' P7 = None"
    and "row P7 = 0 \<or> row P7 = 7" and "col P7 = 0 \<or> col P7 = 7"
    and "k \<noteq> P5" and "k \<noteq> P7" and kv: "isValidPosition k" and occ: "getPieceAt b k \<noteq> None"
    and s: "s \<noteq> P5" "s \<noteq> P7"
    and m: "k \<in> set (getPseudoLegalMoves b' s None)"
  shows "k \<in> set (getPseudoLegalMoves b s None)"
proof -
  from m obtain q where q: "getPieceAt b' s = Some q"
    by (cases "getPieceAt b' s") (auto simp: getPseudoLegalMoves_def)
  then have sv: "isValidPosition s" by (rule getPieceAt_valid)
  with agree s q have q': "getPieceAt b s = Some q" by auto
  have kk: "getPieceAt b' k = getPieceAt b k"
    using agree kv assms(6,7) by auto
  note sl = getSlidingMoves_relocate[OF assms(1-7) sv]
  show ?thesis
  proof (cases "ptype q")
    case pawn
    with m q q' show ?thesis
      using getPawnMoves_relocate[OF kk occ] by (simp add: getPseudoLegalMoves_def)
  next
    case knight
    with m q q' show ?thesis
      using offsetMoves_relocate[OF kk]
      by (simp add: getPseudoLegalMoves_def getKnightMoves_def)
  next
    case king
    with m q q' show ?thesis
      using offsetMoves_relocate[OF kk]
      by (simp add: getPseudoLegalMoves_def getKingMoves_def)
  next
    case bishop
    with m q q' show ?thesis
      using sl by (simp add: getPseudoLegalMoves_def getBishopMoves_def)
  next
    case rook
    with m q q' show ?thesis
      using sl by (simp add: getPseudoLegalMoves_def getRookMoves_def)
  next
    case queen
    with m q q' show ?thesis
      using sl by (simp add: getPseudoLegalMoves_def getQueenMoves_def)
  qed
qed

lemma cell_getPieceAt: "isValidPosition s \<Longrightarrow> cell b (row s) (col s) = getPieceAt b s"
  by (simp add: getPieceAt_def)

lemma opponent_neq: "opponent clr \<noteq> clr"
  by (cases clr) (simp_all add: opponent_def)

lemma isInCheck_relocate:
  assumes wf: "wf_board b"
    and v5: "isValidPosition P5" and v7: "isValidPosition P7"
    and corner: "row P7 = 0 \<or> row P7 = 7" "col P7 = 0 \<or> col P7 = 7"
    and e5: "getPieceAt b P5 = None"
    and x: "\<forall>x. getPieceAt b P7 = Some x \<longrightarrow> color x = clr \<and> ptype x \<noteq> king"
    and b': "b' = setCell (setCell b (row P5) (col P5) (getPieceAt b P7)) (row P7) (col P7) None"
    and safe: "\<not> isInCheck b clr"
  shows "\<not> isInCheck b' clr"
proof -
  have g: "getPieceAt b' q =
             (if q = P7 then None else if q = P5 then getPieceAt b P7 else getPieceAt b q)" for q
    using wf v5 v7 unfolding b'
    by (simp add: getPieceAt_setCell wf_board_setCell isValidPosition_def position_eq_iff)
  have agree: "\<forall>q. isValidPosition q \<and> q \<noteq> P5 \<and> q \<noteq> P7 \<longrightarrow> getPieceAt b' q = getPieceAt b q"
    by (simp add: g)
  have e7: "getPieceAt b' P7 = None" by (simp add: g)
  let ?isKing = "\<lambda>bd s. case cell bd (row s) (col s) of
                     None \<Rightarrow> False | Some p \<Rightarrow> ptype p = king \<and> color p = clr"
  have same_king: "?isKing b' s = ?isKing b s" if "s \<in> set allSquares" for s
  proof -
    have sv: "isValidPosition s" using that by (simp add: allSquares_valid)
    show ?thesis
      using x e5 by (auto simp: cell_getPieceAt[OF sv] g split: option.splits)
  qed
  have fk: "findKing b' clr = findKing b clr"
    unfolding findKing_def by (rule find_cong) (simp_all add: same_king)
  show ?thesis
  proof (cases "findKing b clr")
    case None
    with fk show ?thesis by (simp add: isInCheck_def)
  next
    case (Some k)
    then have kin: "k \<in> set allSquares" and kk: "?isKing b k"
      by (auto simp: findKing_def find_Some_iff)
    have kv: "isValidPosition k" using kin by (simp add: allSquares_valid)
    from kk obtain kp where kp: "getPieceAt b k = Some kp" "ptype kp = king"
      by (auto simp: cell_getPieceAt[OF kv] split: option.splits)
    have k5: "k \<noteq> P5" using kp e5 by auto
    have k7: "k \<noteq> P7" using kp x by auto
    have occ: "getPieceAt b k \<noteq> None" using kp by simp
    have "\<not> isSquareUnderAttack b' k (opponent clr)"
    proof
      assume "isSquareUnderAttack b' k (opponent clr)"
      then have "\<exists>s\<in>set allSquares. case cell b' (row s) (col s) of
                     None \<Rightarrow> False
                   | Some q \<Rightarrow> color q = opponent clr \<and>
                       k \<in> set (getPseudoLegalMoves b' s None)"
        unfolding isSquareUnderAttack_def same_position by (simp add: list_ex_iff)
      then obtain s q where s: "s \<in> set allSquares" "cell b' (row s) (col s) = Some q"
        "color q = opponent clr" "k \<in> set (getPseudoLegalMoves b' s None)"
        by (auto split: option.splits)
      have sv: "isValidPosition s" using s(1) by (simp add: allSquares_valid)
      have q': "getPieceAt b' s = Some q" using s(2) by (simp add: cell_getPieceAt[OF sv])
      have s7: "s \<noteq> P7" using q' e7 by auto
      have s5: "s \<noteq> P5"
      proof
        assume "s = P5"
        with q' s7 have "getPieceAt b P7 = Some q" by (simp add: g split: if_splits)
        with x s(3) show False by (simp add: opponent_neq)
      qed
      have "k \<in> set (getPseudoLegalMoves b s None)"
        using getPseudoLegalMoves_relocate[OF agree e5 e7 corner k5 k7 kv occ s5 s7 s(4)] .
      moreover have "cell b (row s) (col s) = Some q"
        using q' s5 s7 by (simp add: cell_getPieceAt[OF sv] g)
      ultimately have "\<exists>s\<in>set allSquares. case cell b (row s) (col s) of
                     None \<Rightarrow> False
                   | Some q \<Rightarrow> color q = opponent clr \<and>
                       k \<in> set (getPseudoLegalMoves b s None)"
        using s(1,3) by force
      then have "isSquareUnderAttack b k (opponent clr)"
        unfolding isSquareUnderAttack_def same_position by (simp add: list_ex_iff)
      with safe Some show False by (simp add: isInCheck_def)
    qed
    with fk Some show ?thesis by (simp add: isInCheck_def)
  qed
qed

lemma castling_move_shape:
  assumes "getPieceAt b from = Some p" and "ptype p = king" and "\<bar>col to - col from\<bar> = 2"
    and "to \<in> set (getLegalMoves b from ep rights)"
  shows "row to = homeRow (color p) \<and> (col to = 6 \<or> col to = 2) \<and>
         getPieceAt b (rookTarget to) = None \<and>
         \<not> isInCheck (testBoard b p from to ep) (color p)"
proof -
  have ps: "getPseudoLegalMoves b from ep = getKingMoves b from (color p)"
    using assms(1,2) by (simp add: getPseudoLegalMoves_def)
  have np: "to \<notin> set (getPseudoLegalMoves b from ep)"
    using getKingMoves_step[of "to" b "from" "color p"] assms(3) ps by auto
  from getLegalMoves_cases[OF assms(4)] obtain p' where p':
    "getPieceAt b from = Some p'"
    "\<not> isInCheck (testBoard b p' from to ep) (color p')"
    "to \<in> set (getPseudoLegalMoves b from ep) \<or>
     (ptype p' = king \<and> row to = (if color p' = white then 7 else 0) \<and>
      ((col to = 6 \<and> canCastle b (color p') kingside \<and>
        (if color p' = white then whiteKingSide rights else blackKingSide rights)) \<or>
       (col to = 2 \<and> canCastle b (color p') queenside \<and>
        (if color p' = white then whiteQueenSide rights else blackQueenSide rights))))"
    by blast
  have pp: "p' = p" using p'(1) assms(1) by simp
  have r7: "(if color p = white then 7 else 0) = homeRow (color p)"
    by (simp add: homeRow_def)
  from p'(3) np have r: "row to = homeRow (color p)"
    and c: "(col to = 6 \<and> canCastle b (color p) kingside) \<or>
            (col to = 2 \<and> canCastle b (color p) queenside)"
    unfolding pp r7 by blast+
  have hv: "0 \<le> homeRow (color p)" "homeRow (color p) < 8"
    by (simp_all add: homeRow_def)
  from c have "getPieceAt b (rookTarget to) = None"
  proof
    assume "col to = 6 \<and> canCastle b (color p) kingside"
    then show ?thesis
      using r hv canCastle_kingside[of b "color p"]
      by (simp add: rookTarget_def getPieceAt_def isValidPosition_def)
  next
    assume "col to = 2 \<and> canCastle b (color p) queenside"
    then show ?thesis
      using r hv canCastle_queenside[of b "color p"]
      by (simp add: rookTarget_def getPieceAt_def isValidPosition_def)
  qed
  with r c p'(2) pp show ?thesis by auto
qed

lemma moveBoard_castling:
  assumes wf: "wf_board b" and p: "getPieceAt b from = Some p" and k: "ptype p = king"
    and two: "\<bar>col to - col from\<bar> = 2"
    and l: "to \<in> set (getLegalMoves b from ep rights)"
    and nk: "from \<noteq> rookCorner to"
  shows "moveBoard b p from to ep =
           setCell (setCell (testBoard b p from to ep)
                      (row (rookTarget to)) (col (rookTarget to))
                      (getPieceAt (testBoard b p from to ep) (rookCorner to)))
             (row (rookCorner to)) (col (rookCorner to)) None"
proof -
  define rt ct rf cf where "rt = row to" and "ct = col to" and "rf = row from" and "cf = col from"
  define c5 c7 where "c5 = (if ct = 6 then 5 else 3::int)" and "c7 = (if ct = 6 then 7 else 0::int)"
  define X where "X = cell b rt c7"
  have vf: "isValidPosition from" using p by (rule getPieceAt_valid)
  have cfp: "cell b rf cf = Some p"
    using p vf by (simp add: getPieceAt_def rf_def cf_def)
  from castling_move_shape[OF p k two l]
  have r: "row to = homeRow (color p)" and c: "ct = 6 \<or> ct = 2" by (simp_all add: ct_def)
  have bt: "0 \<le> rt" "rt < 8" "0 \<le> ct" "ct < 8"
    using r c by (auto simp: homeRow_def rt_def)
  have bf: "0 \<le> rf" "rf < 8" "0 \<le> cf" "cf < 8"
    using vf by (simp_all add: isValidPosition_def rf_def cf_def)
  have bc: "0 \<le> c5" "c5 < 8" "0 \<le> c7" "c7 < 8" "c5 \<noteq> c7" "c5 \<noteq> ct" "c7 \<noteq> ct" "cf \<noteq> c5"
    using c two bf by (auto simp: c5_def c7_def ct_def cf_def)
  have nk': "\<not> (rf = rt \<and> cf = c7)"
    using nk by (simp add: rookCorner_def position_eq_iff rf_def cf_def rt_def c7_def ct_def)
  have names: "row (rookTarget to) = rt" "col (rookTarget to) = c5"
    "row (rookCorner to) = rt" "col (rookCorner to) = c7"
    by (simp_all add: rookTarget_def rookCorner_def rt_def c5_def c7_def ct_def)
  have vc: "isValidPosition (rookCorner to)"
    using bt bc by (simp add: isValidPosition_def names)
  define tb where "tb = setCell (setCell b rt ct (Some p)) rf cf None"
  have tb: "testBoard b p from to ep = tb"
    using k cfp by (simp add: testBoard_def Let_def tb_def rt_def ct_def rf_def cf_def
        split: option.splits)
  have wtb: "wf_board tb"
    unfolding tb_def using wf by (intro wf_board_setCell)
  have cell_tb: "cell tb r' c' =
      (if r' = rf \<and> c' = cf then None else if r' = rt \<and> c' = ct then Some p else cell b r' c')"
    if "0 \<le> r'" "0 \<le> c'" for r' c'
    unfolding tb_def using wf bt bf that by (simp add: cell_setCell wf_board_setCell)
  have corner_tb: "getPieceAt tb (rookCorner to) = X"
    using vc nk' bc bt by (auto simp: getPieceAt_def names cell_tb X_def)
  define L where "L = setCell (setCell (setCell (setCell b rt c5 X) rt c7 None) rt ct (Some p)) rf cf None"
  define R where "R = setCell (setCell tb rt c5 X) rt c7 None"
  have mb: "moveBoard b p from to ep = L"
    using k two
    by (simp add: moveBoard_def Let_def L_def X_def rt_def ct_def rf_def cf_def c5_def c7_def)
  have "L = R"
  proof (rule board_eqI)
    show "wf_board L" unfolding L_def using wf by (intro wf_board_setCell)
    show "wf_board R" unfolding R_def using wtb by (intro wf_board_setCell)
  next
    fix r' c' :: int
    assume rc: "0 \<le> r'" "r' < 8" "0 \<le> c'" "c' < 8"
    have cellL: "cell L r' c' =
        (if r' = rf \<and> c' = cf then None else if r' = rt \<and> c' = ct then Some p
         else if r' = rt \<and> c' = c7 then None else if r' = rt \<and> c' = c5 then X
         else cell b r' c')"
      unfolding L_def using wf bt bf bc(1-4) rc by (simp add: cell_setCell wf_board_setCell)
    have cellR: "cell R r' c' =
        (if r' = rt \<and> c' = c7 then None else if r' = rt \<and> c' = c5 then X
         else if r' = rf \<and> c' = cf then None else if r' = rt \<and> c' = ct then Some p
         else cell b r' c')"
      unfolding R_def using wtb bt bc(1-4) rc by (simp add: cell_setCell wf_board_setCell cell_tb)
    show "cell L r' c' = cell R r' c'"
      unfolding cellL cellR using bc nk' by auto
  qed
  then show ?thesis
    unfolding mb tb names corner_tb R_def .
qed

section \<open>Legality and the transition\<close>

lemma castling_keeps_king_safe:
  assumes wf: "wf_board b" and p: "getPieceAt b from = Some p" and k: "ptype p = king"
    and two: "\<bar>col to - col from\<bar> = 2"
    and l: "to \<in> set (getLegalMoves b from ep rights)"
    and x: "\<forall>x. getPieceAt b (rookCorner to) = Some x \<longrightarrow> color x = color p \<and> ptype x \<noteq> king"
  shows "\<not> isInCheck (moveBoard b p from to ep) (color p)"
proof -
  define tb where "tb = testBoard b p from to ep"
  have vf: "isValidPosition from" using p by (rule getPieceAt_valid)
  have vt: "isValidPosition to" using l by (rule getLegalMoves_valid)
  from castling_move_shape[OF p k two l]
  have r: "row to = homeRow (color p)" and c: "col to = 6 \<or> col to = 2"
    and e5: "getPieceAt b (rookTarget to) = None"
    and safe: "\<not> isInCheck tb (color p)"
    by (simp_all add: tb_def)
  have nk: "from \<noteq> rookCorner to"
    using p k x by auto
  have cf: "cell b (row from) (col from) = Some p"
    using p vf by (simp add: getPieceAt_def)
  have tb: "tb = setCell (setCell b (row to) (col to) (Some p)) (row from) (col from) None"
    using k cf by (simp add: tb_def testBoard_def Let_def split: option.splits)
  have wtb: "wf_board tb"
    unfolding tb using wf by (intro wf_board_setCell)
  have g: "getPieceAt tb q =
             (if q = from then None else if q = to then Some p else getPieceAt b q)" for q
    unfolding tb using wf vf vt
    by (simp add: getPieceAt_setCell wf_board_setCell isValidPosition_def position_eq_iff)
  have v5: "isValidPosition (rookTarget to)" and v7: "isValidPosition (rookCorner to)"
    using vt by (simp_all add: isValidPosition_def rookTarget_def rookCorner_def)
  have corner: "row (rookCorner to) = 0 \<or> row (rookCorner to) = 7"
    "col (rookCorner to) = 0 \<or> col (rookCorner to) = 7"
    using r by (simp_all add: rookCorner_def homeRow_def)
  have t5: "rookTarget to \<noteq> to" and t7: "rookCorner to \<noteq> to"
    using c by (auto simp: rookTarget_def rookCorner_def position_eq_iff)
  have e5': "getPieceAt tb (rookTarget to) = None"
    using e5 t5 by (simp add: g)
  have x': "\<forall>x. getPieceAt tb (rookCorner to) = Some x \<longrightarrow> color x = color p \<and> ptype x \<noteq> king"
    using x t7 nk by (simp add: g)
  have mb: "moveBoard b p from to ep =
      setCell (setCell tb (row (rookTarget to)) (col (rookTarget to))
                 (getPieceAt tb (rookCorner to)))
        (row (rookCorner to)) (col (rookCorner to)) None"
    unfolding tb_def by (rule moveBoard_castling[OF wf p k two l nk])
  show ?thesis
    by (rule isInCheck_relocate[OF wtb v5 v7 corner e5' x' mb safe])
qed

text \<open>
  C1, as the code has it. For a piece of the side to move on a board of the game, \<open>to\<close>
  is among the legal moves of \<open>from\<close> exactly when \<open>makeMove\<close> returns a state; and,
  unless the move is a king moving two columns while the rook's corner of the destination
  rank holds a piece of the opponent or a king, exactly when \<open>makeMove\<close> returns a state
  in which the king of the side that moved is not in check.
\<close>

theorem makeMove_legality:
  assumes "wf_board (board gs)" and "getPieceAt (board gs) from = Some p"
    and "color p = currentPlayer gs"
  shows "(to \<in> set (getLegalMoves (board gs) from (enPassantTarget gs) (castlingRights gs))
            \<longleftrightarrow> (\<exists>s'. makeMove gs from to = Some s')) \<and>
         ((ptype p = king \<and> \<bar>col to - col from\<bar> = 2 \<longrightarrow>
             (\<forall>x. getPieceAt (board gs) (rookCorner to) = Some x \<longrightarrow>
                    color x = color p \<and> ptype x \<noteq> king)) \<longrightarrow>
            (to \<in> set (getLegalMoves (board gs) from (enPassantTarget gs) (castlingRights gs))
               \<longleftrightarrow> (\<exists>s'. makeMove gs from to = Some s' \<and> \<not> isInCheck (board s') (color p))))"
proof -
  let ?legal = "to \<in> set (getLegalMoves (board gs) from (enPassantTarget gs) (castlingRights gs))"
  have iff: "?legal \<longleftrightarrow> (\<exists>s'. makeMove gs from to = Some s')"
    using makeMove_None_iff[of gs "from" "to"] assms(2,3) by auto
  have safe: "\<not> isInCheck (board s') (color p)"
    if c: "ptype p = king \<and> \<bar>col to - col from\<bar> = 2 \<longrightarrow>
             (\<forall>x. getPieceAt (board gs) (rookCorner to) = Some x \<longrightarrow>
                    color x = color p \<and> ptype x \<noteq> king)"
      and m: "makeMove gs from to = Some s'" for s'
  proof -
    from makeMove_Some[OF m] assms(2) have
      l: ?legal and b: "board s' = moveBoard (board gs) p from to (enPassantTarget gs)"
      by auto
    show ?thesis
    proof (cases "ptype p = king \<and> \<bar>col to - col from\<bar> = 2")
      case True
      with c have x: "\<forall>x. getPieceAt (board gs) (rookCorner to) = Some x \<longrightarrow>
                    color x = color p \<and> ptype x \<noteq> king"
        by simp
      from True show ?thesis
        unfolding b using castling_keeps_king_safe[OF assms(1,2) _ _ l x] by simp
    next
      case False
      from getLegalMoves_cases[OF l] assms(2)
      have "\<not> isInCheck (testBoard (board gs) p from to (enPassantTarget gs)) (color p)"
        by auto
      then show ?thesis
        using moveBoard_testBoard[OF assms(1,2) l False] b by simp
    qed
  qed
  show ?thesis
    using iff safe by blast
qed

theorem makeMove_legality_witness:
  "wf_board (board initialState) \<and>
   getPieceAt (board initialState) (sq 6 4) = Some \<lparr>ptype = pawn, color = white\<rparr> \<and>
   currentPlayer initialState = white \<and>
   sq 4 4 \<in> set (getLegalMoves (board initialState) (sq 6 4) (enPassantTarget initialState)
                   (castlingRights initialState)) \<and>
   (\<exists>s'. makeMove initialState (sq 6 4) (sq 4 4) = Some s' \<and> \<not> isInCheck (board s') white) \<and>
   wf_board (board castleState) \<and>
   getPieceAt (board castleState) (sq 7 4) = Some \<lparr>ptype = king, color = white\<rparr> \<and>
   currentPlayer castleState = white \<and>
   getPieceAt (board castleState) (rookCorner (sq 7 6)) = Some \<lparr>ptype = rook, color = white\<rparr> \<and>
   sq 7 6 \<in> set (getLegalMoves (board castleState) (sq 7 4) (enPassantTarget castleState)
                   (castlingRights castleState)) \<and>
   (\<exists>s'. makeMove castleState (sq 7 4) (sq 7 6) = Some s' \<and> \<not> isInCheck (board s') white)"
proof -
  have wf: "wf_board (board initialState)" by code_simp
  have p: "getPieceAt (board initialState) (sq 6 4) = Some \<lparr>ptype = pawn, color = white\<rparr>"
    by code_simp
  have w: "color \<lparr>ptype = pawn, color = white\<rparr> = currentPlayer initialState"
    by (simp add: initialState_def stateOf_def)
  have l: "sq 4 4 \<in> set (getLegalMoves (board initialState) (sq 6 4)
                   (enPassantTarget initialState) (castlingRights initialState))"
    by code_simp
  from makeMove_legality[OF wf p w, of "sq 4 4"] l
  have a: "\<exists>s'. makeMove initialState (sq 6 4) (sq 4 4) = Some s' \<and> \<not> isInCheck (board s') white"
    by simp
  have wf': "wf_board (board castleState)" by code_simp
  have p': "getPieceAt (board castleState) (sq 7 4) = Some \<lparr>ptype = king, color = white\<rparr>"
    by code_simp
  have w': "color \<lparr>ptype = king, color = white\<rparr> = currentPlayer castleState"
    by (simp add: castleState_def stateOf_def)
  have c': "getPieceAt (board castleState) (rookCorner (sq 7 6)) =
              Some \<lparr>ptype = rook, color = white\<rparr>"
    by code_simp
  have l': "sq 7 6 \<in> set (getLegalMoves (board castleState) (sq 7 4)
                   (enPassantTarget castleState) (castlingRights castleState))"
    by code_simp
  from makeMove_legality[OF wf' p' w', of "sq 7 6"] l' c'
  have b: "\<exists>s'. makeMove castleState (sq 7 4) (sq 7 6) = Some s' \<and> \<not> isInCheck (board s') white"
    by simp
  show ?thesis
    using wf p w l a wf' p' w' c' l' b by simp
qed

text \<open>
  The claim as stated fails for a piece of the side that is not to move: the black
  e-pawn has the legal move e7-e6 in the initial position, and \<open>makeMove\<close> returns null.
\<close>

theorem makeMove_legality_counterexample:
  "sq 2 4 \<in> set (getLegalMoves (board initialState) (sq 1 4) (enPassantTarget initialState)
                   (castlingRights initialState)) \<and>
   makeMove initialState (sq 1 4) (sq 2 4) = None"
  by code_simp

end
